theory Spec2Isabelle
  imports Complex_Main "HOL-Library.Log_Nat"
begin

section \<open>The live user-stream manager of ui/static/binance\_user\_stream.js\<close>

text \<open>
  The manager is five module variables (\<open>_userStreamWS\<close>, \<open>_userStreamReconnectTimer\<close>,
  \<open>_reconnectDelayMs\<close>, \<open>_streamStartedOnce\<close>, \<open>_keepaliveTimer\<close>) and the functions and
  socket handlers that read and write them. The handlers run one at a time on the browser's
  event loop, so the model is a record of the variables together with the part of the page
  they act on (the WebSocket objects created so far, the pending timeouts, the active
  intervals, the requests in flight), and one function per source function or handler.

  Three collaborators are called, never inspected: \<open>appendWsLog\<close>, \<open>setConnDot\<close> and
  \<open>loadBalances\<close>. The model records what the manager hands to them: the lines given to
  \<open>appendWsLog\<close>, newest first as the log shows them and without the wall-clock prefix,
  and the state last given to \<open>setConnDot\<close>. The page loads app.js, which defines
  \<open>setConnDot\<close>, and dashboard.js, which defines \<open>loadBalances\<close>, so the guards
  \<open>typeof ... === "function"\<close> hold.

  The browser's part is taken from the HTML and WebSocket standards: timer handles are
  positive integers, each handed out once; \<open>close()\<close> on a socket that is connecting or
  open starts its closing, and the close event follows in a later turn, to the handlers
  that are still attached; a socket has one close event. The constructor does not throw
  for the URL the source builds from the page's own host.
\<close>

subsection \<open>Values that JSON.parse returns\<close>

text \<open>
  A number is carried by the decimal text that \<open>Number.prototype.toString\<close> gives it
  (\<open>''0''\<close> for both zeros), which is all the handlers ever do with a number: test it for
  truth and print it. \<open>JUndefined\<close> is the value of a property that is not there.
  An object is the list of its own properties.
\<close>

datatype jsval =
    JUndefined
  | JNull
  | JBool bool
  | JNum string
  | JStr string
  | JArr "jsval list"
  | JObj "(string \<times> jsval) list"

datatype exn = TypeError

text \<open>ToBoolean: what \<open>if (v)\<close>, \<open>!!v\<close>, \<open>v ? a : b\<close> and \<open>v || w\<close> test.\<close>

fun truthy :: "jsval \<Rightarrow> bool" where
  "truthy JUndefined = False"
| "truthy JNull = False"
| "truthy (JBool b) = b"
| "truthy (JNum n) = (n \<noteq> ''0'')"
| "truthy (JStr s) = (s \<noteq> [])"
| "truthy (JArr xs) = True"
| "truthy (JObj kvs) = True"

text \<open>\<open>a || b\<close>\<close>

definition js_or :: "jsval \<Rightarrow> jsval \<Rightarrow> jsval" where
  "js_or a b = (if truthy a then a else b)"

text \<open>
  \<open>v.k\<close> for the property names the source reads (type, msg, connected, phase, env, error,
  data, e, eventType, ok), none of which a prototype defines: reading from \<open>null\<close> or
  \<open>undefined\<close> throws, an object gives its own property or \<open>undefined\<close>, every other value
  gives \<open>undefined\<close>.
\<close>

fun js_get :: "jsval \<Rightarrow> string \<Rightarrow> exn + jsval" where
  "js_get JUndefined k = Inl TypeError"
| "js_get JNull k = Inl TypeError"
| "js_get (JObj kvs) k = Inr (case map_of kvs k of None \<Rightarrow> JUndefined | Some v \<Rightarrow> v)"
| "js_get v k = Inr JUndefined"

text \<open>\<open>v?.k\<close>\<close>

fun js_get_opt :: "jsval \<Rightarrow> string \<Rightarrow> jsval" where
  "js_get_opt (JObj kvs) k = (case map_of kvs k of None \<Rightarrow> JUndefined | Some v \<Rightarrow> v)"
| "js_get_opt v k = JUndefined"

text \<open>
  ToString, as a template literal applies it. An array joins its elements with commas,
  \<open>null\<close> and \<open>undefined\<close> elements printing as nothing. An object prints through
  \<open>Object.prototype.toString\<close> unless it has an own property \<open>toString\<close>: a parsed value is
  never callable, and \<open>Object.prototype.valueOf\<close> returns the object, so the conversion then
  throws.
\<close>

fun toStr :: "jsval \<Rightarrow> exn + string"
  and joinStr :: "jsval list \<Rightarrow> exn + string"
  and elemStr :: "jsval \<Rightarrow> exn + string" where
  "toStr JUndefined = Inr ''undefined''"
| "toStr JNull = Inr ''null''"
| "toStr (JBool b) = Inr (if b then ''true'' else ''false'')"
| "toStr (JNum n) = Inr n"
| "toStr (JStr s) = Inr s"
| "toStr (JArr xs) = joinStr xs"
| "toStr (JObj kvs) =
     (if ''toString'' \<in> fst ` set kvs then Inl TypeError else Inr ''[object Object]'')"
| "joinStr [] = Inr []"
| "joinStr [x] = elemStr x"
| "joinStr (x # y # ys) =
     (case elemStr x of
        Inl e \<Rightarrow> Inl e
      | Inr a \<Rightarrow> (case joinStr (y # ys) of Inl e \<Rightarrow> Inl e | Inr b \<Rightarrow> Inr (a @ '','' @ b)))"
| "elemStr JUndefined = Inr []"
| "elemStr JNull = Inr []"
| "elemStr v = toStr v"

subsection \<open>Numbers\<close>

text \<open>
  A JavaScript number is an IEEE 754 double. A finite double is carried by its exact value,
  a rational, and an arithmetic operation is the exact operation followed by rounding to
  the nearest double, a tie going to the even significand: \<open>binade x\<close> is the \<open>k\<close> with
  \<open>2^(k-1) \<le> |x| < 2^k\<close>, and a double in that binade is a multiple of \<open>2^(k-53)\<close>.
  Overflow to infinity and the subnormal range are left out: the only arithmetic of the
  source is on the reconnect delay, which stays between 1500 and 32000.
\<close>

definition round_half_even :: "rat \<Rightarrow> int" where
  "round_half_even q =
     (let f = \<lfloor>q\<rfloor>; r = q - of_int f
      in if r < 1 / 2 then f else if 1 / 2 < r then f + 1 else if even f then f else f + 1)"

definition binade :: "rat \<Rightarrow> int" where
  "binade x =
     (if 1 \<le> \<bar>x\<bar> then bitlen \<lfloor>\<bar>x\<bar>\<rfloor> else 1 - bitlen (\<lceil>1 / \<bar>x\<bar>\<rceil> - 1))"

definition to_double :: "rat \<Rightarrow> rat" where
  "to_double x =
     (if x = 0 then 0
      else let e = binade x - 53
           in of_int (round_half_even (x / 2 powi e)) * 2 powi e)"

text \<open>\<open>a * b\<close> and \<open>a / b\<close> on doubles, and the double that the literal \<open>1.6\<close> denotes.\<close>

definition js_mul :: "rat \<Rightarrow> rat \<Rightarrow> rat" where
  "js_mul a b = to_double (a * b)"

definition js_div :: "rat \<Rightarrow> rat \<Rightarrow> rat" where
  "js_div a b = to_double (a / b)"

definition js_1_6 :: rat where
  "js_1_6 = to_double (16 / 10)"

subsection \<open>Printing numbers and building the socket URL\<close>

function show_nat :: "nat \<Rightarrow> string" where
  "show_nat n =
     (if n < 10 then [''0123456789'' ! n]
      else show_nat (n div 10) @ [''0123456789'' ! (n mod 10)])"
  by pat_completeness auto
termination
  by (relation "measure (\<lambda>n. n)") auto

definition show_int :: "int \<Rightarrow> string" where
  "show_int i = (if i < 0 then ''-'' @ show_nat (nat (- i)) else show_nat (nat i))"

text \<open>\<open>Math.round\<close>: the nearest integer, a half going up.\<close>

definition Math_round :: "rat \<Rightarrow> int" where
  "Math_round x = \<lfloor>x + 1 / 2\<rfloor>"

text \<open>
  \<open>encodeURIComponent\<close> on the UTF-8 bytes of its argument: letters, digits and
  \<open>- _ . ! ~ * ' ( )\<close> stay, every other byte becomes \<open>%XX\<close>.
\<close>

definition unreserved :: "char \<Rightarrow> bool" where
  "unreserved c =
     (c \<in> set ''ABCDEFGHIJKLMNOPQRSTUVWXYZabcdefghijklmnopqrstuvwxyz0123456789-_.!~*()''
      \<or> c = CHR 0x27)"

definition percent :: "char \<Rightarrow> string" where
  "percent c =
     [CHR ''%'', ''0123456789ABCDEF'' ! (of_char c div 16), ''0123456789ABCDEF'' ! (of_char c mod 16)]"

definition encodeURIComponent :: "string \<Rightarrow> string" where
  "encodeURIComponent s = concat (map (\<lambda>c. if unreserved c then [c] else percent c) s)"

subsection \<open>The page and the manager's variables\<close>

datatype conn = Pending | Ok | Fail

datatype ready = CONNECTING | OPEN | CLOSING | CLOSED

text \<open>
  A WebSocket object: its URL, the \<open>env\<close> its four handlers have captured, and its
  \<open>readyState\<close>. The handle of a socket is its position in the list of the sockets created.
\<close>

record socket =
  url :: string
  sock_env :: string
  readyState :: ready

text \<open>A socket is live while it is connecting or open.\<close>

definition live :: "socket \<Rightarrow> bool" where
  "live s = (readyState s = CONNECTING \<or> readyState s = OPEN)"

text \<open>What a pending timeout will run: the two arrow functions given to \<open>setTimeout\<close>.\<close>

datatype action = Reconnect string | Refresh

text \<open>
  \<open>reconnectDelayMs\<close> is the exact value of the double that \<open>_reconnectDelayMs\<close> holds.
  \<open>timeouts\<close> are the pending \<open>setTimeout\<close> calls (handle, delay in ms, callback) and
  \<open>intervals\<close> the active \<open>setInterval\<close> calls (handle, captured \<open>env\<close>; the period is
  always 25 minutes and is not recorded); both draw their
  handles from \<open>nextTimerId\<close>, which the browser keeps positive, so that a handle is never
  falsy. \<open>pendingStarts\<close> are the invocations of \<open>startBinanceUserStreamLive\<close> suspended at
  their \<open>await\<close>, \<open>starterCalls\<close> counts the calls of \<open>ensureBinanceUserStreamStarted\<close>, and
  \<open>balanceLoads\<close> the calls of \<open>loadBalances\<close>.
\<close>

record world =
  userStreamWS :: "nat option"
  userStreamReconnectTimer :: "nat option"
  reconnectDelayMs :: rat
  streamStartedOnce :: bool
  keepaliveTimer :: "nat option"
  connDot :: conn
  wsLog :: "string list"
  sockets :: "socket list"
  timeouts :: "(nat \<times> rat \<times> action) list"
  intervals :: "(nat \<times> string) list"
  nextTimerId :: nat
  pendingStarts :: "string list"
  starterCalls :: nat
  balanceLoads :: nat
  location_protocol :: string
  location_host :: string

text \<open>The page as the script finds it when it is loaded (lines 167 to 172).\<close>

definition init :: "string \<Rightarrow> string \<Rightarrow> world" where
  "init proto host =
     \<lparr> userStreamWS = None, userStreamReconnectTimer = None, reconnectDelayMs = 1500,
       streamStartedOnce = False, keepaliveTimer = None, connDot = Pending, wsLog = [],
       sockets = [], timeouts = [], intervals = [], nextTimerId = 1, pendingStarts = [],
       starterCalls = 0, balanceLoads = 0, location_protocol = proto, location_host = host \<rparr>"

subsection \<open>Browser calls\<close>

definition setTimeout :: "action \<Rightarrow> rat \<Rightarrow> world \<Rightarrow> nat \<times> world" where
  "setTimeout f ms w =
     (nextTimerId w,
      w\<lparr>timeouts := timeouts w @ [(nextTimerId w, ms, f)], nextTimerId := Suc (nextTimerId w)\<rparr>)"

definition clearTimeout :: "nat \<Rightarrow> world \<Rightarrow> world" where
  "clearTimeout t w = w\<lparr>timeouts := filter (\<lambda>p. fst p \<noteq> t) (timeouts w)\<rparr>"

definition setInterval :: "string \<Rightarrow> world \<Rightarrow> nat \<times> world" where
  "setInterval env w =
     (nextTimerId w,
      w\<lparr>intervals := intervals w @ [(nextTimerId w, env)], nextTimerId := Suc (nextTimerId w)\<rparr>)"

definition clearInterval :: "nat \<Rightarrow> world \<Rightarrow> world" where
  "clearInterval t w = w\<lparr>intervals := filter (\<lambda>p. fst p \<noteq> t) (intervals w)\<rparr>"

text \<open>
  \<open>ws.close()\<close>: a live socket starts closing, and its close event
  comes later; a socket already closing or closed stays as it is. A handle is always a
  socket that was created; a position outside the list changes nothing.
\<close>

definition ws_close :: "nat \<Rightarrow> world \<Rightarrow> world" where
  "ws_close i w =
     (if i < length (sockets w) \<and> live (sockets w ! i)
      then w\<lparr>sockets := (sockets w)[i := (sockets w ! i)\<lparr>readyState := CLOSING\<rparr>]\<rparr>
      else w)"

text \<open>\<open>new WebSocket(url)\<close>, with the handlers that capture \<open>env\<close>.\<close>

definition new_WebSocket :: "string \<Rightarrow> string \<Rightarrow> world \<Rightarrow> nat \<times> world" where
  "new_WebSocket u env w =
     (length (sockets w),
      w\<lparr>sockets := sockets w @ [\<lparr>url = u, sock_env = env, readyState = CONNECTING\<rparr>]\<rparr>)"

subsection \<open>Log, indicator and keepalive (lines 174 to 209)\<close>

definition appendWsLog :: "string \<Rightarrow> world \<Rightarrow> world" where
  "appendWsLog line w = w\<lparr>wsLog := line # wsLog w\<rparr>"

definition setConnDot :: "conn \<Rightarrow> world \<Rightarrow> world" where
  "setConnDot st w = w\<lparr>connDot := st\<rparr>"

definition stopKeepalive :: "world \<Rightarrow> world" where
  "stopKeepalive w =
     (case keepaliveTimer w of
        None \<Rightarrow> w
      | Some t \<Rightarrow> (clearInterval t w)\<lparr>keepaliveTimer := None\<rparr>)"

definition startKeepalive :: "string \<Rightarrow> world \<Rightarrow> world" where
  "startKeepalive env w =
     (let (t, w1) = setInterval env (stopKeepalive w) in w1\<lparr>keepaliveTimer := Some t\<rparr>)"

text \<open>
  What a request brings back: \<open>fetch\<close> rejects, or \<open>res.json()\<close> rejects, or there is a
  parsed body.
\<close>

datatype response = NetworkError | NotJson | Body jsval

text \<open>Sequencing of steps that may throw.\<close>

definition andThen :: "exn + 'a \<Rightarrow> ('a \<Rightarrow> exn + 'b) \<Rightarrow> exn + 'b" where
  "andThen r f = (case r of Inl e \<Rightarrow> Inl e | Inr x \<Rightarrow> f x)"

text \<open>One tick of the interval (lines 196 to 208), at the time its request has come back.\<close>

definition keepalive_try :: "string \<Rightarrow> jsval \<Rightarrow> world \<Rightarrow> exn + world" where
  "keepalive_try env data w =
     (if truthy (js_get_opt data ''ok'')
      then Inr (appendWsLog (''Keepalive OK ('' @ env @ '')'') w)
      else andThen (toStr (js_or (js_get_opt data ''error'') (JStr ''unknown'')))
             (\<lambda>t. Inr (appendWsLog (''Keepalive error: '' @ t) w)))"

definition keepalive_tick :: "string \<Rightarrow> response \<Rightarrow> world \<Rightarrow> world" where
  "keepalive_tick env r w =
     (case r of
        Body data \<Rightarrow>
          (case keepalive_try env data w of
             Inl e \<Rightarrow> appendWsLog ''Keepalive failed: fetch_failed'' w
           | Inr w1 \<Rightarrow> w1)
      | _ \<Rightarrow> appendWsLog ''Keepalive failed: fetch_failed'' w)"

subsection \<open>ensureBinanceUserStreamStarted (lines 211 to 229)\<close>

text \<open>
  The body of the \<open>try\<close> once the response is parsed. It writes nothing before its last
  step, so the \<open>catch\<close> continues from the state the \<open>try\<close> started in.
\<close>

definition ensure_try :: "string \<Rightarrow> jsval \<Rightarrow> world \<Rightarrow> exn + bool \<times> world" where
  "ensure_try env data w =
     andThen (js_get data ''ok'') (\<lambda>ok.
       if truthy ok
       then Inr (True, appendWsLog (''User stream started ('' @ env @ '')'') w)
       else andThen (js_get data ''error'') (\<lambda>er.
              andThen (toStr (js_or er (JStr ''unknown''))) (\<lambda>t.
                Inr (False, appendWsLog (''User stream start error: '' @ t) w))))"

definition ensureBinanceUserStreamStarted :: "string \<Rightarrow> response \<Rightarrow> world \<Rightarrow> bool \<times> world" where
  "ensureBinanceUserStreamStarted env r w =
     (case r of
        Body data \<Rightarrow>
          (case ensure_try env data w of
             Inl e \<Rightarrow> (False, appendWsLog ''User stream start failed: fetch_failed'' w)
           | Inr res \<Rightarrow> res)
      | _ \<Rightarrow> (False, appendWsLog ''User stream start failed: fetch_failed'' w))"

subsection \<open>closeUserStreamWS and connectUserStreamWS (lines 231 to 250)\<close>

text \<open>The \<open>try\<close> around \<open>close()\<close> has nothing to catch: \<open>ws_close\<close> never throws.\<close>

definition closeUserStreamWS :: "world \<Rightarrow> world" where
  "closeUserStreamWS w =
     (let w1 = (case userStreamReconnectTimer w of
                  None \<Rightarrow> w
                | Some t \<Rightarrow> (clearTimeout t w)\<lparr>userStreamReconnectTimer := None\<rparr>)
      in case userStreamWS w1 of
           None \<Rightarrow> w1
         | Some i \<Rightarrow> (ws_close i w1)\<lparr>userStreamWS := None\<rparr>)"

definition ws_url :: "string \<Rightarrow> world \<Rightarrow> string" where
  "ws_url env w =
     (if location_protocol w = ''https:'' then ''wss'' else ''ws'') @ ''://'' @ location_host w
       @ ''/ws/binance/user-stream?env='' @ encodeURIComponent env"

definition connectUserStreamWS :: "string \<Rightarrow> world \<Rightarrow> world" where
  "connectUserStreamWS env w =
     (let w1 = closeUserStreamWS w;
          w2 = setConnDot Pending w1;
          u = ws_url env w2;
          w3 = appendWsLog (''Connecting WS: '' @ u) w2;
          (i, w4) = new_WebSocket u env w3
      in w4\<lparr>userStreamWS := Some i\<rparr>)"

subsection \<open>The handlers of a socket (lines 252 to 318)\<close>

definition ws_onopen :: "world \<Rightarrow> world" where
  "ws_onopen w = (appendWsLog ''WS connected'' w)\<lparr>reconnectDelayMs := 1500\<rparr>"

text \<open>Lines 288 and 289: \<open>msg.data || {}\<close>, then \<open>data.e || data.eventType || "unknown_event"\<close>.\<close>

definition eventType_of :: "jsval \<Rightarrow> exn + jsval" where
  "eventType_of msg =
     andThen (js_get msg ''data'') (\<lambda>d.
       let data = js_or d (JObj []) in
     andThen (js_get data ''e'') (\<lambda>e1.
     andThen (js_get data ''eventType'') (\<lambda>e2.
       Inr (js_or e1 (js_or e2 (JStr ''unknown_event''))))))"

text \<open>
  The message handler after a successful \<open>JSON.parse\<close>. \<open>JSON.stringify\<close> is the browser's
  and is a parameter. Every branch computes its log line first and writes afterwards, so an
  exception leaves the state as the handler found it.
\<close>

definition dispatch :: "(jsval \<Rightarrow> string) \<Rightarrow> string \<Rightarrow> jsval \<Rightarrow> world \<Rightarrow> exn + world" where
  "dispatch stringify env msg w =
     andThen (js_get msg ''type'') (\<lambda>ty.
       if ty = JStr ''hello'' then
         andThen (js_get msg ''msg'') (\<lambda>m.
         andThen (toStr (js_or m (JStr ''ok''))) (\<lambda>t.
           Inr (appendWsLog (''HELLO: '' @ t) w)))
       else if ty = JStr ''status'' then
         andThen (js_get msg ''connected'') (\<lambda>c.
         andThen (js_get msg ''phase'') (\<lambda>ph.
         andThen (if truthy ph then andThen (toStr ph) (\<lambda>t. Inr ('' ('' @ t @ '')'')) else Inr [])
           (\<lambda>phase.
         andThen (js_get msg ''env'') (\<lambda>me.
         andThen (toStr (js_or me (JStr env))) (\<lambda>e.
           let connected = truthy c;
               w1 = appendWsLog (''Status: '' @ (if connected then ''connected'' else ''not connected'')
                                  @ '' ('' @ e @ '')'' @ phase) w
           in Inr (setConnDot (if connected then Ok else Fail) w1))))))
       else if ty = JStr ''error'' then
         andThen (js_get msg ''error'') (\<lambda>er.
         andThen (toStr (js_or er (JStr ''unknown''))) (\<lambda>t.
           Inr (setConnDot Fail (appendWsLog (''WS error: '' @ t) w))))
       else if ty = JStr ''binance_event'' then
         andThen (eventType_of msg) (\<lambda>eventType.
         andThen (toStr eventType) (\<lambda>t.
           let w1 = setConnDot Ok (appendWsLog (''Event: '' @ t) w)
           in if eventType = JStr ''outboundAccountPosition'' \<or> eventType = JStr ''balanceUpdate''
              then Inr (snd (setTimeout Refresh 400 w1))
              else Inr w1))
       else Inr (appendWsLog (''WS message: '' @ take 220 (stringify msg)) w))"

text \<open>
  \<open>JSON.parse\<close> is the browser's too: \<open>None\<close> is its SyntaxError, which the handler catches.
  \<open>ev_data\<close> is the text of the frame (for a binary frame, what \<open>String(ev.data)\<close> gives).
\<close>

definition ws_onmessage ::
  "(string \<Rightarrow> jsval option) \<Rightarrow> (jsval \<Rightarrow> string) \<Rightarrow> string \<Rightarrow> string \<Rightarrow> world \<Rightarrow> exn + world" where
  "ws_onmessage parse stringify env ev_data w =
     (case parse ev_data of
        None \<Rightarrow> Inr (appendWsLog (''WS non-json: '' @ take 200 ev_data) w)
      | Some msg \<Rightarrow> dispatch stringify env msg w)"

text \<open>
  The close handler, with the \<open>code\<close> and \<open>reason\<close> of its event. The timeout is set with the
  delay as it is before the growth. The product and the quotient are those of doubles;
  \<open>Math.min\<close> and \<open>Math.round\<close> are exact.
\<close>

definition ws_onclose :: "string \<Rightarrow> nat \<Rightarrow> string \<Rightarrow> world \<Rightarrow> world" where
  "ws_onclose env code reason w =
     (let w1 = appendWsLog (''WS closed (code='' @ show_nat code @ '', reason='' @ [CHR 0x22]
                  @ (if reason \<noteq> [] then reason else []) @ [CHR 0x22] @ '') -> reconnect in ''
                  @ show_int (Math_round (js_div (reconnectDelayMs w) 1000)) @ ''s'') w;
          w2 = setConnDot Fail w1;
          (t, w3) = setTimeout (Reconnect env) (reconnectDelayMs w2) w2;
          w4 = w3\<lparr>userStreamReconnectTimer := Some t\<rparr>
      in w4\<lparr>reconnectDelayMs := min (js_mul (reconnectDelayMs w4) js_1_6) 20000\<rparr>)"

definition ws_onerror :: "world \<Rightarrow> world" where
  "ws_onerror w = setConnDot Fail (appendWsLog ''WS error (socket)'' w)"

subsection \<open>startBinanceUserStreamLive and stopBinanceUserStream (lines 321 to 344)\<close>

text \<open>
  The function is asynchronous. Up to its \<open>await\<close> it runs in the caller's turn: when the
  stream is already started there is no \<open>await\<close> on the path and the connect happens at once;
  otherwise the request is sent and the invocation is suspended.
\<close>

definition startBinanceUserStreamLive :: "string \<Rightarrow> world \<Rightarrow> world" where
  "startBinanceUserStreamLive env w =
     (let w1 = setConnDot Pending w
      in if \<not> streamStartedOnce w1
         then w1\<lparr>starterCalls := Suc (starterCalls w1), pendingStarts := pendingStarts w1 @ [env]\<rparr>
         else connectUserStreamWS env w1)"

text \<open>The rest of a suspended invocation, when its request has come back with \<open>r\<close>.\<close>

definition startLive_resume :: "string \<Rightarrow> response \<Rightarrow> world \<Rightarrow> world" where
  "startLive_resume env r w =
     (let (ok, w1) = ensureBinanceUserStreamStarted env r w
      in if \<not> ok
         then closeUserStreamWS (stopKeepalive (setConnDot Fail w1))
         else connectUserStreamWS env (startKeepalive env (w1\<lparr>streamStartedOnce := True\<rparr>)))"

definition stopBinanceUserStream :: "world \<Rightarrow> world" where
  "stopBinanceUserStream w =
     (closeUserStreamWS (stopKeepalive w))\<lparr>streamStartedOnce := False, reconnectDelayMs := 1500\<rparr>"

subsection \<open>The event loop\<close>

text \<open>
  What can happen to the page, one turn of the event loop each: a caller starts or stops the
  manager, a start request comes back, a socket opens, delivers a message, closes (by the
  network or at the end of a \<open>close()\<close>) or reports an error, a timeout fires, the keepalive
  interval ticks. An event that the browser cannot deliver in the current state (a socket or
  timer that does not exist, a message on a socket that is not open, a second close event)
  changes nothing. An exception that escapes a handler ends that handler only.
\<close>

datatype event =
    StartLive string
  | StartReply nat response
  | Stop
  | WsOpen nat
  | WsMessage nat string
  | WsClose nat nat string
  | WsError nat
  | TimeoutFire nat
  | IntervalTick nat response

text \<open>
  The state after a handler that may have thrown: the message handler writes nothing before
  the last point where it can throw.
\<close>

definition settle :: "world \<Rightarrow> exn + world \<Rightarrow> world" where
  "settle w r = (case r of Inl e \<Rightarrow> w | Inr w1 \<Rightarrow> w1)"

definition set_ready :: "nat \<Rightarrow> ready \<Rightarrow> world \<Rightarrow> world" where
  "set_ready i r w = w\<lparr>sockets := (sockets w)[i := (sockets w ! i)\<lparr>readyState := r\<rparr>]\<rparr>"

definition fire :: "action \<Rightarrow> world \<Rightarrow> world" where
  "fire a w =
     (case a of
        Reconnect env \<Rightarrow> startBinanceUserStreamLive env w
      | Refresh \<Rightarrow> w\<lparr>balanceLoads := Suc (balanceLoads w)\<rparr>)"

definition step ::
  "(string \<Rightarrow> jsval option) \<Rightarrow> (jsval \<Rightarrow> string) \<Rightarrow> event \<Rightarrow> world \<Rightarrow> world" where
  "step parse stringify ev w =
     (case ev of
        StartLive env \<Rightarrow> startBinanceUserStreamLive env w
      | StartReply k r \<Rightarrow>
          (if k < length (pendingStarts w)
           then startLive_resume (pendingStarts w ! k) r
                  (w\<lparr>pendingStarts := take k (pendingStarts w) @ drop (Suc k) (pendingStarts w)\<rparr>)
           else w)
      | Stop \<Rightarrow> stopBinanceUserStream w
      | WsOpen i \<Rightarrow>
          (if i < length (sockets w) \<and> readyState (sockets w ! i) = CONNECTING
           then ws_onopen (set_ready i OPEN w) else w)
      | WsMessage i ev_data \<Rightarrow>
          (if i < length (sockets w) \<and> readyState (sockets w ! i) = OPEN
           then settle w (ws_onmessage parse stringify (sock_env (sockets w ! i)) ev_data w)
           else w)
      | WsClose i code reason \<Rightarrow>
          (if i < length (sockets w) \<and> readyState (sockets w ! i) \<noteq> CLOSED
           then ws_onclose (sock_env (sockets w ! i)) code reason (set_ready i CLOSED w) else w)
      | WsError i \<Rightarrow>
          (if i < length (sockets w) \<and> readyState (sockets w ! i) \<noteq> CLOSED
           then ws_onerror w else w)
      | TimeoutFire t \<Rightarrow>
          (case map_of (timeouts w) t of
             None \<Rightarrow> w
           | Some (ms, a) \<Rightarrow> fire a (clearTimeout t w))
      | IntervalTick t r \<Rightarrow>
          (case map_of (intervals w) t of
             None \<Rightarrow> w
           | Some env \<Rightarrow> keepalive_tick env r w))"

text \<open>A run of the page: the events in the order they happen.\<close>

fun run ::
  "(string \<Rightarrow> jsval option) \<Rightarrow> (jsval \<Rightarrow> string) \<Rightarrow> event list \<Rightarrow> world \<Rightarrow> world" where
  "run parse stringify [] w = w"
| "run parse stringify (ev # evs) w = run parse stringify evs (step parse stringify ev w)"

text \<open>The sockets that are connecting or open, and the pending reconnect timeouts.\<close>

definition live_sockets :: "world \<Rightarrow> socket list" where
  "live_sockets w = filter live (sockets w)"

fun is_reconnect :: "nat \<times> rat \<times> action \<Rightarrow> bool" where
  "is_reconnect (t, ms, Reconnect env) = True"
| "is_reconnect (t, ms, Refresh) = False"

definition pending_reconnects :: "world \<Rightarrow> (nat \<times> rat \<times> action) list" where
  "pending_reconnects w = filter is_reconnect (timeouts w)"

definition pending_refreshes :: "world \<Rightarrow> (nat \<times> rat \<times> action) list" where
  "pending_refreshes w = filter (\<lambda>p. \<not> is_reconnect p) (timeouts w)"

subsection \<open>Vocabulary of the statements\<close>

text \<open>The events that put the reconnect delay back to its floor, and the stop among them.\<close>

fun resets :: "event \<Rightarrow> bool" where
  "resets (WsOpen i) = True"
| "resets Stop = True"
| "resets ev = False"


text \<open>
  Two facts that hold of every page the event loop can produce: a live socket is the one
  the manager's handle names, and an active interval is the one its handle names, which is
  there only while the stream is started.
\<close>

definition one_socket :: "world \<Rightarrow> bool" where
  "one_socket w = (\<forall>i < length (sockets w). live (sockets w ! i) \<longrightarrow> userStreamWS w = Some i)"

definition one_keepalive :: "world \<Rightarrow> bool" where
  "one_keepalive w =
     ((\<forall>p \<in> set (intervals w). keepaliveTimer w = Some (fst p))
      \<and> (keepaliveTimer w \<noteq> None \<longrightarrow> streamStartedOnce w))"

text \<open>A value that a template literal can print.\<close>

definition printable :: "jsval \<Rightarrow> bool" where
  "printable v = (case toStr v of Inl e \<Rightarrow> False | Inr t \<Rightarrow> True)"

text \<open>
  The inner event type of an envelope, in the words of the description: the \<open>e\<close> field of
  its data or, when there is none, the \<open>eventType\<close> field. A balance event is a
  \<open>binance_event\<close> envelope whose inner type is one of the two balance-affecting kinds, and a
  received text is refreshing when it parses to one.
\<close>

definition inner_type :: "jsval \<Rightarrow> jsval" where
  "inner_type msg =
     (let data = js_get_opt msg ''data''; e = js_get_opt data ''e''
      in if truthy e then e else js_get_opt data ''eventType'')"

definition balance_event :: "jsval \<Rightarrow> bool" where
  "balance_event msg =
     (js_get_opt msg ''type'' = JStr ''binance_event''
      \<and> (inner_type msg = JStr ''outboundAccountPosition'' \<or> inner_type msg = JStr ''balanceUpdate''))"

definition refreshing :: "(string \<Rightarrow> jsval option) \<Rightarrow> string \<Rightarrow> bool" where
  "refreshing parse ev_data =
     (case parse ev_data of None \<Rightarrow> False | Some msg \<Rightarrow> balance_event msg)"

text \<open>Every pending timeout has a handle that the browser has already handed out.\<close>

definition fresh_timers :: "world \<Rightarrow> bool" where
  "fresh_timers w = (\<forall>p \<in> set (timeouts w). fst p < nextTimerId w)"

text \<open>A parsed message whose branch of the handler can print what it logs.\<close>

definition loggable :: "jsval \<Rightarrow> bool" where
  "loggable msg =
     (let ty = js_get_opt msg ''type'' in
      if ty = JStr ''hello'' then printable (js_get_opt msg ''msg'')
      else if ty = JStr ''status''
        then printable (js_get_opt msg ''phase'') \<and> printable (js_get_opt msg ''env'')
      else if ty = JStr ''error'' then printable (js_get_opt msg ''error'')
      else if ty = JStr ''binance_event''
        then (case eventType_of msg of Inl e \<Rightarrow> False | Inr v \<Rightarrow> printable v)
      else True)"

subsection \<open>Sample inputs\<close>

text \<open>
  Messages as texts and as parsed values: four account events (a balance update, an order
  report, a position update, and a balance update named by \<open>eventType\<close>), a status whose \<open>connected\<close>
  is a number and one whose \<open>connected\<close> is the string \<open>no\<close>, an error whose text is an
  object with a property \<open>toString\<close>, a well-formed status and error, an event without data,
  and a message of a kind not known.
\<close>

definition balance_text :: string where
  \<open>balance_text = ''{"type":"binance_event","data":{"e":"balanceUpdate"}}''\<close>

definition order_text :: string where
  \<open>order_text = ''{"type":"binance_event","data":{"e":"executionReport"}}''\<close>

definition position_text :: string where
  \<open>position_text = ''{"type":"binance_event","data":{"e":"outboundAccountPosition"}}''\<close>

definition fallback_text :: string where
  \<open>fallback_text = ''{"type":"binance_event","data":{"eventType":"balanceUpdate"}}''\<close>

definition position_msg :: jsval where
  "position_msg =
     JObj [(''type'', JStr ''binance_event''), (''data'', JObj [(''e'', JStr ''outboundAccountPosition'')])]"

definition fallback_msg :: jsval where
  "fallback_msg =
     JObj [(''type'', JStr ''binance_event''), (''data'', JObj [(''eventType'', JStr ''balanceUpdate'')])]"

definition status_one_text :: string where
  \<open>status_one_text = ''{"type":"status","connected":1}''\<close>

definition balance_msg :: jsval where
  "balance_msg = JObj [(''type'', JStr ''binance_event''), (''data'', JObj [(''e'', JStr ''balanceUpdate'')])]"

definition order_msg :: jsval where
  "order_msg = JObj [(''type'', JStr ''binance_event''), (''data'', JObj [(''e'', JStr ''executionReport'')])]"

definition status_one_msg :: jsval where
  "status_one_msg = JObj [(''type'', JStr ''status''), (''connected'', JNum ''1'')]"

definition status_msg :: jsval where
  "status_msg = JObj [(''type'', JStr ''status''), (''connected'', JBool True),
                      (''env'', JStr ''testnet''), (''phase'', JStr ''listening'')]"

definition status_no_msg :: jsval where
  "status_no_msg = JObj [(''type'', JStr ''status''), (''connected'', JStr ''no'')]"

definition bad_error_msg :: jsval where
  "bad_error_msg = JObj [(''type'', JStr ''error''), (''error'', JObj [(''toString'', JNum ''1'')])]"

definition error_msg :: jsval where
  "error_msg = JObj [(''type'', JStr ''error''), (''error'', JStr ''stream lost'')]"

definition bare_event_msg :: jsval where
  "bare_event_msg = JObj [(''type'', JStr ''binance_event'')]"

definition ping_msg :: jsval where
  "ping_msg = JObj [(''type'', JStr ''ping'')]"

text \<open>
  Parsers: one that rejects every text, one that knows \<open>null\<close> and the sample texts, and one
  that returns a given value for every text. A printer that prints nothing.
\<close>

definition no_parse :: "string \<Rightarrow> jsval option" where
  "no_parse s = None"

definition sample_parse :: "string \<Rightarrow> jsval option" where
  "sample_parse s =
     (if s = ''null'' then Some JNull
      else if s = balance_text then Some balance_msg
      else if s = order_text then Some order_msg
      else if s = status_one_text then Some status_one_msg
      else if s = position_text then Some position_msg
      else if s = fallback_text then Some fallback_msg
      else None)"

definition always :: "jsval \<Rightarrow> string \<Rightarrow> jsval option" where
  "always v s = Some v"

definition no_stringify :: "jsval \<Rightarrow> string" where
  "no_stringify v = []"

text \<open>The positive and the negative answer of the start endpoint.\<close>

definition ack :: response where
  "ack = Body (JObj [(''ok'', JBool True)])"

definition nack :: response where
  "nack = Body (JObj [(''ok'', JBool False), (''error'', JStr ''unauthorized'')])"

text \<open>
  Pages: after one acknowledged start; after its socket has opened; after a second start on
  top of the first, when the close event of the replaced socket has come; after the new
  socket has closed as well; and after two starts made before either request came back, of
  which the first has then been acknowledged.
\<close>

definition started_page :: world where
  "started_page =
     run no_parse no_stringify [StartLive ''testnet'', StartReply 0 ack] (init ''http:'' ''localhost'')"

definition open_page :: world where
  "open_page = run sample_parse no_stringify [WsOpen 0] started_page"

definition busy_page :: world where
  "busy_page = run no_parse no_stringify [StartLive ''testnet'', WsClose 0 1006 []] started_page"

definition crowded_page :: world where
  "crowded_page = run no_parse no_stringify [WsClose 1 1006 []] busy_page"

definition overlapped_page :: world where
  "overlapped_page =
     run no_parse no_stringify [StartLive ''testnet'', StartLive ''testnet'', StartReply 0 ack]
       (init ''http:'' ''localhost'')"

text \<open>
  Events: the socket \<open>k\<close> closes abnormally and the reconnect timeout it has set fires, \<open>n\<close>
  times over, on a page where that timeout has the handle \<open>k + 2\<close>.
\<close>

fun drops :: "nat \<Rightarrow> nat \<Rightarrow> event list" where
  "drops k 0 = []"
| "drops k (Suc n) = WsClose k 1006 [] # TimeoutFire (k + 2) # drops (Suc k) n"

section \<open>Verified properties\<close>

subsection \<open>One live socket\<close>

lemmas prim_defs = setTimeout_def clearTimeout_def setInterval_def clearInterval_def ws_close_def
  new_WebSocket_def set_ready_def appendWsLog_def setConnDot_def

lemma one_socket_init: "one_socket (init proto host)"
  by (simp add: one_socket_def init_def)

lemma length_ws_close [simp]: "length (sockets (ws_close j w)) = length (sockets w)"
  by (simp add: ws_close_def)

lemma live_ws_close:
  "i < length (sockets w) \<Longrightarrow>
   live (sockets (ws_close j w) ! i) = (live (sockets w ! i) \<and> i \<noteq> j)"
  by (cases "i = j") (auto simp add: ws_close_def live_def)

lemma sockets_ws_close_cong:
  "sockets w1 = sockets w \<Longrightarrow> sockets (ws_close j w1) = sockets (ws_close j w)"
  by (auto simp add: ws_close_def)

lemma sockets_close:
  "sockets (closeUserStreamWS w)
     = (case userStreamWS w of None \<Rightarrow> sockets w | Some j \<Rightarrow> sockets (ws_close j w))"
  by (simp add: closeUserStreamWS_def clearTimeout_def Let_def
        sockets_ws_close_cong [of "w\<lparr>timeouts := ts, userStreamReconnectTimer := None\<rparr>" w for ts]
        split: option.splits)

lemma close_no_live:
  assumes "one_socket w" "i < length (sockets (closeUserStreamWS w))"
  shows "\<not> live (sockets (closeUserStreamWS w) ! i)"
proof (cases "userStreamWS w")
  case None
  then show ?thesis using assms by (simp add: sockets_close one_socket_def)
next
  case (Some j)
  then have i: "i < length (sockets w)" using assms(2) by (simp add: sockets_close)
  show ?thesis using Some assms(1) i by (auto simp add: sockets_close live_ws_close one_socket_def)
qed

lemma close_handle [simp]: "userStreamWS (closeUserStreamWS w) = None"
  by (simp add: closeUserStreamWS_def Let_def split: option.splits)

lemma close_timer [simp]: "userStreamReconnectTimer (closeUserStreamWS w) = None"
  by (simp add: closeUserStreamWS_def prim_defs Let_def split: option.splits)

lemma one_socket_close: "one_socket w \<Longrightarrow> one_socket (closeUserStreamWS w)"
  using close_no_live by (simp add: one_socket_def)

lemma one_socket_connect: 
  assumes "one_socket w" shows "one_socket (connectUserStreamWS env w)"
proof -
  let ?c = "closeUserStreamWS w"
  have s: "sockets (connectUserStreamWS env w)
      = sockets ?c @ [\<lparr>url = ws_url env (setConnDot Pending ?c), sock_env = env, readyState = CONNECTING\<rparr>]"
    by (simp add: connectUserStreamWS_def new_WebSocket_def appendWsLog_def setConnDot_def Let_def)
  have h: "userStreamWS (connectUserStreamWS env w) = Some (length (sockets ?c))"
    by (simp add: connectUserStreamWS_def new_WebSocket_def appendWsLog_def setConnDot_def Let_def)
  show ?thesis
    unfolding one_socket_def s h using close_no_live [OF assms]
    by (auto simp add: nth_append less_Suc_eq)
qed


lemma sockets_stopKeepalive [simp]: "sockets (stopKeepalive w) = sockets w"
  by (simp add: stopKeepalive_def prim_defs split: option.splits)

lemma handle_stopKeepalive [simp]: "userStreamWS (stopKeepalive w) = userStreamWS w"
  by (simp add: stopKeepalive_def prim_defs split: option.splits)

lemma sockets_startKeepalive [simp]: "sockets (startKeepalive env w) = sockets w"
  by (simp add: startKeepalive_def prim_defs Let_def split: prod.splits)

lemma handle_startKeepalive [simp]: "userStreamWS (startKeepalive env w) = userStreamWS w"
  by (simp add: startKeepalive_def prim_defs Let_def split: prod.splits)

lemma one_socket_startLive: "one_socket w \<Longrightarrow> one_socket (startBinanceUserStreamLive env w)"
proof -
  assume a: "one_socket w"
  have "one_socket (setConnDot Pending w)"
    using a by (simp add: one_socket_def setConnDot_def)
  then show ?thesis
    by (auto simp add: startBinanceUserStreamLive_def Let_def one_socket_connect)
       (simp add: one_socket_def)
qed

lemma ensure_frame:
  "ensureBinanceUserStreamStarted env r w = (ok, w1) \<Longrightarrow> \<exists>line. w1 = appendWsLog line w"
  by (auto simp add: ensureBinanceUserStreamStarted_def ensure_try_def andThen_def
        split: response.splits sum.splits if_splits)

lemma one_socket_resume: 
  assumes "one_socket w" shows "one_socket (startLive_resume env r w)"
proof -
  obtain ok w1 where e: "ensureBinanceUserStreamStarted env r w = (ok, w1)" by force
  then obtain line where w1: "w1 = appendWsLog line w" using ensure_frame by blast
  have o: "one_socket w1" using assms by (simp add: w1 one_socket_def appendWsLog_def)
  show ?thesis
  proof (cases ok)
    case True
    have "one_socket (startKeepalive env (w1\<lparr>streamStartedOnce := True\<rparr>))"
      using o by (simp add: one_socket_def)
    then show ?thesis using e True by (simp add: startLive_resume_def one_socket_connect)
  next
    case False
    have "one_socket (stopKeepalive (setConnDot Fail w1))"
      using o by (simp add: one_socket_def setConnDot_def)
    then show ?thesis using e False by (simp add: startLive_resume_def one_socket_close)
  qed
qed

lemma dispatch_frame:
  "dispatch stringify env msg w = Inr w1 \<Longrightarrow> sockets w1 = sockets w \<and> userStreamWS w1 = userStreamWS w"
  by (auto simp add: dispatch_def andThen_def prim_defs Let_def split: sum.splits if_splits)

lemma one_socket_settle:
  "one_socket w \<Longrightarrow> one_socket (settle w (ws_onmessage parse stringify env d w))"
  by (auto simp add: settle_def ws_onmessage_def one_socket_def appendWsLog_def
        dest: dispatch_frame split: sum.splits option.splits)

lemma one_socket_stop: "one_socket w \<Longrightarrow> one_socket (stopBinanceUserStream w)"
proof -
  assume "one_socket w"
  then have "one_socket (stopKeepalive w)" by (simp add: one_socket_def)
  then have "one_socket (closeUserStreamWS (stopKeepalive w))" by (rule one_socket_close)
  then show ?thesis by (simp add: stopBinanceUserStream_def one_socket_def)
qed

lemma one_socket_step: "one_socket w \<Longrightarrow> one_socket (step parse stringify ev w)"
proof (cases ev)
  case (StartLive env)
  assume "one_socket w" then show ?thesis using StartLive by (simp add: step_def one_socket_startLive)
next
  case (StartReply k r)
  assume a: "one_socket w"
  have "one_socket (w\<lparr>pendingStarts := take k (pendingStarts w) @ drop (Suc k) (pendingStarts w)\<rparr>)"
    using a by (simp add: one_socket_def)
  then show ?thesis using StartReply a by (simp add: step_def one_socket_resume)
next
  case Stop
  assume "one_socket w" then show ?thesis using Stop by (simp add: step_def one_socket_stop)
next
  case (WsOpen i)
  assume "one_socket w" then show ?thesis using WsOpen
    by (auto simp add: step_def ws_onopen_def one_socket_def prim_defs live_def nth_list_update)
next
  case (WsMessage i d)
  assume "one_socket w" then show ?thesis using WsMessage by (simp add: step_def one_socket_settle)
next
  case (WsClose i code reason)
  assume "one_socket w" then show ?thesis using WsClose
    by (auto simp add: step_def ws_onclose_def one_socket_def prim_defs live_def nth_list_update Let_def)
next
  case (WsError i)
  assume "one_socket w" then show ?thesis using WsError
    by (auto simp add: step_def ws_onerror_def one_socket_def prim_defs)
next
  case (TimeoutFire t)
  assume a: "one_socket w"
  have "one_socket (clearTimeout t w)" using a by (simp add: one_socket_def clearTimeout_def)
  then show ?thesis using TimeoutFire a
    by (auto simp add: step_def fire_def one_socket_startLive split: option.splits action.splits)
       (simp add: one_socket_def)
next
  case (IntervalTick t r)
  assume "one_socket w" then show ?thesis using IntervalTick
    by (auto simp add: step_def keepalive_tick_def keepalive_try_def andThen_def one_socket_def appendWsLog_def
          split: option.splits response.splits sum.splits)
qed

lemma one_socket_run: "one_socket w \<Longrightarrow> one_socket (run parse stringify evs w)"
  by (induction evs arbitrary: w) (simp_all add: one_socket_step)

lemma at_most_one_live:
  assumes "one_socket w" shows "length (live_sockets w) \<le> 1"
proof -
  let ?H = "case userStreamWS w of None \<Rightarrow> ({}::nat set) | Some i \<Rightarrow> {i}"
  let ?L = "{i. i < length (sockets w) \<and> live (sockets w ! i)}"
  have sub: "?L \<subseteq> ?H"
    using assms by (auto simp add: one_socket_def split: option.splits)
  have fin: "finite ?H" by (simp split: option.splits)
  have "card ?L \<le> card ?H" using card_mono [OF fin sub] .
  also have "card ?H \<le> 1" by (simp split: option.splits)
  finally show ?thesis by (simp add: live_sockets_def length_filter_conv_card)
qed

subsection \<open>One keepalive interval\<close>

lemma one_keepalive_init: "one_keepalive (init proto host)"
  by (simp add: one_keepalive_def init_def)

lemma keep_close:
  "intervals (closeUserStreamWS w) = intervals w
   \<and> keepaliveTimer (closeUserStreamWS w) = keepaliveTimer w
   \<and> streamStartedOnce (closeUserStreamWS w) = streamStartedOnce w"
  by (simp add: closeUserStreamWS_def prim_defs Let_def split: option.splits)

lemma keep_connect:
  "intervals (connectUserStreamWS env w) = intervals w
   \<and> keepaliveTimer (connectUserStreamWS env w) = keepaliveTimer w
   \<and> streamStartedOnce (connectUserStreamWS env w) = streamStartedOnce w"
  by (simp add: connectUserStreamWS_def new_WebSocket_def appendWsLog_def setConnDot_def keep_close Let_def)

lemma keep_startLive:
  "intervals (startBinanceUserStreamLive env w) = intervals w
   \<and> keepaliveTimer (startBinanceUserStreamLive env w) = keepaliveTimer w
   \<and> streamStartedOnce (startBinanceUserStreamLive env w) = streamStartedOnce w"
  by (simp add: startBinanceUserStreamLive_def setConnDot_def keep_connect Let_def)

lemma stopKeepalive_clears:
  "one_keepalive w \<Longrightarrow> intervals (stopKeepalive w) = [] \<and> keepaliveTimer (stopKeepalive w) = None"
proof (cases "keepaliveTimer w")
  case None
  assume "one_keepalive w"
  then have "intervals w = []" using None
    by (cases "intervals w") (auto simp add: one_keepalive_def)
  then show ?thesis using None by (simp add: stopKeepalive_def)
next
  case (Some t)
  assume "one_keepalive w"
  then have "\<forall>p \<in> set (intervals w). fst p = t" using Some by (simp add: one_keepalive_def)
  then show ?thesis using Some
    by (simp add: stopKeepalive_def clearInterval_def filter_empty_conv)
qed

lemma one_keepalive_stopKeepalive: "one_keepalive w \<Longrightarrow> one_keepalive (stopKeepalive w)"
  using stopKeepalive_clears [of w] by (simp add: one_keepalive_def)

lemma started_stopKeepalive [simp]: "streamStartedOnce (stopKeepalive w) = streamStartedOnce w"
  by (simp add: stopKeepalive_def prim_defs split: option.splits)

lemma one_keepalive_startKeepalive:
  "one_keepalive w \<Longrightarrow> streamStartedOnce w \<Longrightarrow> one_keepalive (startKeepalive env w)"
  using stopKeepalive_clears [of w]
  by (simp add: one_keepalive_def startKeepalive_def setInterval_def Let_def)

lemma one_keepalive_resume:
  assumes "one_keepalive w" shows "one_keepalive (startLive_resume env r w)"
proof -
  obtain ok w1 where e: "ensureBinanceUserStreamStarted env r w = (ok, w1)" by force
  then obtain line where w1: "w1 = appendWsLog line w" using ensure_frame by blast
  have o: "one_keepalive w1" using assms by (simp add: w1 one_keepalive_def appendWsLog_def)
  show ?thesis
  proof (cases ok)
    case True
    have "one_keepalive (w1\<lparr>streamStartedOnce := True\<rparr>)"
      using o by (simp add: one_keepalive_def)
    then have "one_keepalive (startKeepalive env (w1\<lparr>streamStartedOnce := True\<rparr>))"
      by (simp add: one_keepalive_startKeepalive)
    then show ?thesis using e True
      by (simp add: startLive_resume_def keep_connect one_keepalive_def)
  next
    case False
    have "one_keepalive (setConnDot Fail w1)"
      using o by (simp add: one_keepalive_def setConnDot_def)
    then have "one_keepalive (stopKeepalive (setConnDot Fail w1))"
      by (rule one_keepalive_stopKeepalive)
    then show ?thesis using e False
      by (simp add: startLive_resume_def keep_close one_keepalive_def)
  qed
qed

lemma one_keepalive_stop: "one_keepalive w \<Longrightarrow> one_keepalive (stopBinanceUserStream w)"
  using stopKeepalive_clears [of w]
  by (simp add: stopBinanceUserStream_def one_keepalive_def keep_close)

lemma keep_dispatch:
  "dispatch stringify env msg w = Inr w1 \<Longrightarrow>
   intervals w1 = intervals w \<and> keepaliveTimer w1 = keepaliveTimer w
   \<and> streamStartedOnce w1 = streamStartedOnce w"
  by (auto simp add: dispatch_def andThen_def prim_defs Let_def split: sum.splits if_splits)

lemma keep_settle:
  "intervals (settle w (ws_onmessage parse stringify env d w)) = intervals w
   \<and> keepaliveTimer (settle w (ws_onmessage parse stringify env d w)) = keepaliveTimer w
   \<and> streamStartedOnce (settle w (ws_onmessage parse stringify env d w)) = streamStartedOnce w"
  by (auto simp add: settle_def ws_onmessage_def appendWsLog_def
        dest: keep_dispatch split: sum.splits option.splits)

lemma keep_tick:
  "intervals (keepalive_tick env r w) = intervals w
   \<and> keepaliveTimer (keepalive_tick env r w) = keepaliveTimer w
   \<and> streamStartedOnce (keepalive_tick env r w) = streamStartedOnce w"
  by (auto simp add: keepalive_tick_def keepalive_try_def andThen_def appendWsLog_def
        split: response.splits sum.splits)

lemma one_keepalive_step: "one_keepalive w \<Longrightarrow> one_keepalive (step parse stringify ev w)"
proof (cases ev)
  case (StartLive env)
  assume "one_keepalive w" then show ?thesis using StartLive
    by (simp add: step_def one_keepalive_def keep_startLive)
next
  case (StartReply k r)
  assume a: "one_keepalive w"
  have "one_keepalive (w\<lparr>pendingStarts := take k (pendingStarts w) @ drop (Suc k) (pendingStarts w)\<rparr>)"
    using a by (simp add: one_keepalive_def)
  then show ?thesis using StartReply a by (simp add: step_def one_keepalive_resume)
next
  case Stop
  assume "one_keepalive w" then show ?thesis using Stop by (simp add: step_def one_keepalive_stop)
next
  case (WsOpen i)
  assume "one_keepalive w" then show ?thesis using WsOpen
    by (simp add: step_def ws_onopen_def one_keepalive_def prim_defs)
next
  case (WsMessage i d)
  assume "one_keepalive w" then show ?thesis using WsMessage
    by (simp add: step_def one_keepalive_def keep_settle)
next
  case (WsClose i code reason)
  assume "one_keepalive w" then show ?thesis using WsClose
    by (simp add: step_def ws_onclose_def one_keepalive_def prim_defs Let_def)
next
  case (WsError i)
  assume "one_keepalive w" then show ?thesis using WsError
    by (simp add: step_def ws_onerror_def one_keepalive_def prim_defs)
next
  case (TimeoutFire t)
  assume a: "one_keepalive w"
  then show ?thesis using TimeoutFire
    by (auto simp add: step_def fire_def one_keepalive_def keep_startLive clearTimeout_def
          split: option.splits action.splits)
next
  case (IntervalTick t r)
  assume "one_keepalive w" then show ?thesis using IntervalTick
    by (simp add: step_def one_keepalive_def keep_tick split: option.splits)
qed

lemma one_keepalive_run: "one_keepalive w \<Longrightarrow> one_keepalive (run parse stringify evs w)"
  by (induction evs arbitrary: w) (simp_all add: one_keepalive_step)

subsection \<open>Rounding to a double\<close>

lemma round_half_even_lower: "q - 1 / 2 \<le> of_int (round_half_even q)"
  unfolding round_half_even_def Let_def by (auto simp: ) linarith+

lemma binade_lower:
  assumes "1 \<le> x"
  shows "2 powi (binade x - 1) \<le> x"
proof -
  have p: "0 < \<lfloor>x\<rfloor>" using assms by linarith
  have a: "\<bar>x\<bar> = x" using assms by simp
  have k: "0 \<le> bitlen \<lfloor>x\<rfloor> - 1" using p by (auto simp: bitlen_alt_def)
  have "(2::int) ^ nat (bitlen \<lfloor>x\<rfloor> - 1) \<le> \<lfloor>x\<rfloor>" using bitlen_bounds [OF p] by simp
  then have "of_int ((2::int) ^ nat (bitlen \<lfloor>x\<rfloor> - 1)) \<le> (of_int \<lfloor>x\<rfloor> :: rat)"
    by (simp only: of_int_le_iff)
  also have "\<dots> \<le> x" by simp
  finally have "(2::rat) ^ nat (bitlen \<lfloor>x\<rfloor> - 1) \<le> x" by simp
  then show ?thesis using assms k by (simp add: binade_def a power_int_def)
qed

lemma to_double_lower:
  assumes "1 \<le> x"
  shows "x * (1 - 1 / 2 ^ 53) \<le> to_double x"
proof -
  let ?e = "binade x - 53"
  let ?s = "(2::rat) powi ?e"
  have s: "0 < ?s" by simp
  have x0: "x \<noteq> 0" using assms by simp
  have d: "to_double x = of_int (round_half_even (x / ?s)) * ?s"
    using x0 by (simp add: to_double_def Let_def)
  have "x / ?s - 1 / 2 \<le> of_int (round_half_even (x / ?s))" by (rule round_half_even_lower)
  then have "(x / ?s - 1 / 2) * ?s \<le> of_int (round_half_even (x / ?s)) * ?s"
    using s by (simp only: mult_le_cancel_right_pos)
  moreover have "(x / ?s - 1 / 2) * ?s = x - ?s / 2"
  proof -
    have "x / ?s * ?s = x" using s by simp
    then show ?thesis by (simp add: left_diff_distrib)
  qed
  ultimately have l: "x - ?s / 2 \<le> to_double x" by (simp only: d)
  have "?s * 2 ^ 52 = 2 powi (binade x - 1)"
  proof -
    have "(2::rat) powi (binade x - 1) = 2 powi (?e + 52)" by simp
    also have "\<dots> = ?s * 2 powi 52" by (rule power_int_add) simp
    finally show ?thesis by simp
  qed
  then have "?s * 2 ^ 52 \<le> x" using binade_lower [OF assms] by simp
  then have "?s / 2 \<le> x / 2 ^ 53" by (simp add: field_simps)
  then show ?thesis using l by (simp add: field_simps)
qed

lemma js_1_6_value: "js_1_6 = 3602879701896397 / 2251799813685248"
  by code_simp

lemma js_mul_1_6_grows:
  assumes "1 \<le> d"
  shows "d \<le> js_mul d js_1_6"
proof -
  define y where "y = d * js_1_6"
  have c: "16 / 10 \<le> js_1_6" by (simp add: js_1_6_value)
  have "d * (16 / 10) \<le> d * js_1_6" using assms c by (intro mult_left_mono) simp_all
  then have x: "d * (16 / 10) \<le> y" by (simp only: y_def)
  have one: "1 \<le> y" using assms x by linarith
  have "d \<le> d * (16 / 10) * (1 - 1 / 2 ^ 53)" using assms by simp
  also have "\<dots> \<le> y * (1 - 1 / 2 ^ 53)" using x by (intro mult_right_mono) simp_all
  also have "\<dots> \<le> to_double y" by (rule to_double_lower [OF one])
  finally show ?thesis by (simp add: js_mul_def y_def)
qed


lemma round_half_even_upper: "of_int (round_half_even q) \<le> q + 1 / 2"
  unfolding round_half_even_def Let_def by (auto simp: ) linarith+

lemma to_double_upper:
  assumes "1 \<le> x"
  shows "to_double x \<le> x * (1 + 1 / 2 ^ 53)"
proof -
  let ?e = "binade x - 53"
  let ?s = "(2::rat) powi ?e"
  have s: "0 < ?s" by simp
  have x0: "x \<noteq> 0" using assms by simp
  have d: "to_double x = of_int (round_half_even (x / ?s)) * ?s"
    using x0 by (simp add: to_double_def Let_def)
  have "of_int (round_half_even (x / ?s)) \<le> x / ?s + 1 / 2" by (rule round_half_even_upper)
  then have "of_int (round_half_even (x / ?s)) * ?s \<le> (x / ?s + 1 / 2) * ?s"
    using s by (simp only: mult_le_cancel_right_pos)
  moreover have "(x / ?s + 1 / 2) * ?s = x + ?s / 2"
  proof -
    have "x / ?s * ?s = x" using s by simp
    then show ?thesis by (simp add: distrib_right)
  qed
  ultimately have l: "to_double x \<le> x + ?s / 2" by (simp only: d)
  have "?s * 2 ^ 52 = 2 powi (binade x - 1)"
  proof -
    have "(2::rat) powi (binade x - 1) = 2 powi (?e + 52)" by simp
    also have "\<dots> = ?s * 2 powi 52" by (rule power_int_add) simp
    finally show ?thesis by simp
  qed
  then have "?s * 2 ^ 52 \<le> x" using binade_lower [OF assms] by simp
  then have "?s / 2 \<le> x / 2 ^ 53" by (simp add: field_simps)
  then show ?thesis using l by (simp add: field_simps)
qed

lemma js_mul_1_6_close:
  assumes "1 \<le> d"
  shows "d * (16 / 10) \<le> js_mul d js_1_6 + d / 2 ^ 50 \<and> js_mul d js_1_6 \<le> d * (16 / 10) + d / 2 ^ 50"
proof -
  define y where "y = d * js_1_6"
  have c: "16 / 10 \<le> js_1_6" "js_1_6 \<le> 16 / 10 + 1 / 2 ^ 52" by (simp_all add: js_1_6_value)
  have "d * (16 / 10) \<le> d * js_1_6" using assms c(1) by (intro mult_left_mono) simp_all
  then have x: "d * (16 / 10) \<le> y" by (simp only: y_def)
  have "d * js_1_6 \<le> d * (16 / 10 + 1 / 2 ^ 52)" using assms c(2) by (intro mult_left_mono) simp_all
  then have u: "y \<le> d * (16 / 10) + d / 2 ^ 52" by (simp add: y_def distrib_left)
  have y2: "y \<le> 2 * d" using u assms by simp
  have one: "1 \<le> y" using assms x by linarith
  have lo: "y * (1 - 1 / 2 ^ 53) \<le> to_double y" by (rule to_double_lower [OF one])
  have hi: "to_double y \<le> y * (1 + 1 / 2 ^ 53)" by (rule to_double_upper [OF one])
  have e: "y / 2 ^ 53 \<le> d / 2 ^ 52" using y2 by simp
  have lo2: "y - d / 2 ^ 52 \<le> to_double y" using lo e by (simp add: right_diff_distrib)
  have hi2: "to_double y \<le> y + d / 2 ^ 52" using hi e by (simp add: distrib_left)
  have q: "d / 2 ^ 52 + d / 2 ^ 52 \<le> d / 2 ^ 50" using assms by simp
  show ?thesis using x u lo2 hi2 q by (simp add: js_mul_def y_def [symmetric])
qed

subsection \<open>The reconnect delay\<close>

lemma delay_close [simp]: "reconnectDelayMs (closeUserStreamWS w) = reconnectDelayMs w"
  by (simp add: closeUserStreamWS_def stopKeepalive_def clearTimeout_def clearInterval_def ws_close_def Let_def split: option.splits)

lemma delay_stopKeepalive [simp]: "reconnectDelayMs (stopKeepalive w) = reconnectDelayMs w"
  by (simp add: closeUserStreamWS_def stopKeepalive_def clearTimeout_def clearInterval_def ws_close_def Let_def split: option.splits)

lemma delay_startKeepalive [simp]: "reconnectDelayMs (startKeepalive env w) = reconnectDelayMs w"
  by (simp add: startKeepalive_def setInterval_def Let_def split: option.splits prod.splits)

lemma delay_connect [simp]: "reconnectDelayMs (connectUserStreamWS env w) = reconnectDelayMs w"
  by (simp add: connectUserStreamWS_def new_WebSocket_def appendWsLog_def setConnDot_def Let_def split: option.splits prod.splits)

lemma delay_startLive [simp]: "reconnectDelayMs (startBinanceUserStreamLive env w) = reconnectDelayMs w"
  by (simp add: startBinanceUserStreamLive_def setConnDot_def Let_def)

lemma delay_ensure [simp]: "reconnectDelayMs (snd (ensureBinanceUserStreamStarted env r w)) = reconnectDelayMs w"
  by (auto simp add: ensureBinanceUserStreamStarted_def ensure_try_def andThen_def appendWsLog_def split: response.splits sum.splits)

lemma delay_resume [simp]: "reconnectDelayMs (startLive_resume env r w) = reconnectDelayMs w"
proof -
  obtain ok w1 where e: "ensureBinanceUserStreamStarted env r w = (ok, w1)" by force
  then have "reconnectDelayMs w1 = reconnectDelayMs w" using delay_ensure[of env r w] by simp
  then show ?thesis using e by (simp add: startLive_resume_def setConnDot_def)
qed

lemma delay_dispatch: "dispatch stringify env msg w = Inr w1 \<Longrightarrow> reconnectDelayMs w1 = reconnectDelayMs w"
  by (auto simp add: dispatch_def andThen_def appendWsLog_def setConnDot_def setTimeout_def Let_def
           split: sum.splits if_splits)

lemma delay_onmessage: "ws_onmessage parse stringify env d w = Inr w1 \<Longrightarrow> reconnectDelayMs w1 = reconnectDelayMs w"
  by (auto simp add: ws_onmessage_def appendWsLog_def dest: delay_dispatch split: option.splits)

lemma delay_tick [simp]: "reconnectDelayMs (keepalive_tick env r w) = reconnectDelayMs w"
  by (auto simp add: keepalive_tick_def keepalive_try_def andThen_def appendWsLog_def split: response.splits sum.splits)

lemma delay_onclose:
  "reconnectDelayMs (ws_onclose env code reason w) = min (js_mul (reconnectDelayMs w) js_1_6) 20000"
  by (simp add: ws_onclose_def appendWsLog_def setConnDot_def setTimeout_def Let_def)

lemma delay_onopen: "reconnectDelayMs (ws_onopen w) = 1500"
  by (simp add: ws_onopen_def)

lemma delay_onerror [simp]: "reconnectDelayMs (ws_onerror w) = reconnectDelayMs w"
  by (simp add: ws_onerror_def appendWsLog_def setConnDot_def)

lemma delay_stop: "reconnectDelayMs (stopBinanceUserStream w) = 1500"
  by (simp add: stopBinanceUserStream_def)

lemma delay_step_cases:
  "reconnectDelayMs (step parse stringify ev w) = reconnectDelayMs w
   \<or> reconnectDelayMs (step parse stringify ev w) = min (js_mul (reconnectDelayMs w) js_1_6) 20000
   \<or> (resets ev \<and> reconnectDelayMs (step parse stringify ev w) = 1500)"
  by (cases ev)
     (auto simp add: step_def fire_def settle_def delay_onclose delay_onopen delay_stop set_ready_def
           clearTimeout_def
           dest: delay_onmessage split: option.splits sum.splits action.splits)

lemma grown_delay:
  assumes "1500 \<le> d" "d \<le> 20000"
  shows "d \<le> min (js_mul d js_1_6) 20000 \<and> 1500 \<le> min (js_mul d js_1_6) 20000"
proof -
  have "d \<le> js_mul d js_1_6" using assms(1) by (intro js_mul_1_6_grows) simp
  then show ?thesis using assms by simp
qed

lemma delay_step_bounds:
  assumes "1500 \<le> reconnectDelayMs w" "reconnectDelayMs w \<le> 20000"
  shows "1500 \<le> reconnectDelayMs (step parse stringify ev w)
         \<and> reconnectDelayMs (step parse stringify ev w) \<le> 20000"
  using delay_step_cases [of parse stringify ev w] assms grown_delay [OF assms] by auto

lemma delay_run_bounds:
  "1500 \<le> reconnectDelayMs w \<Longrightarrow> reconnectDelayMs w \<le> 20000 \<Longrightarrow>
   1500 \<le> reconnectDelayMs (run parse stringify evs w)
   \<and> reconnectDelayMs (run parse stringify evs w) \<le> 20000"
proof (induction evs arbitrary: w)
  case Nil
  then show ?case by simp
next
  case (Cons ev evs)
  then show ?case using delay_step_bounds [of w parse stringify ev] by simp
qed

lemma delay_step_mono:
  assumes "1500 \<le> reconnectDelayMs w" "reconnectDelayMs w \<le> 20000" "\<not> resets ev"
  shows "reconnectDelayMs w \<le> reconnectDelayMs (step parse stringify ev w)"
  using delay_step_cases [of parse stringify ev w] assms grown_delay [OF assms(1,2)] by auto

lemma delay_run_mono:
  "1500 \<le> reconnectDelayMs w \<Longrightarrow> reconnectDelayMs w \<le> 20000 \<Longrightarrow> \<not> list_ex resets evs \<Longrightarrow>
   reconnectDelayMs w \<le> reconnectDelayMs (run parse stringify evs w)"
proof (induction evs arbitrary: w)
  case Nil
  then show ?case by simp
next
  case (Cons ev evs)
  let ?w1 = "step parse stringify ev w"
  have b: "1500 \<le> reconnectDelayMs ?w1 \<and> reconnectDelayMs ?w1 \<le> 20000"
    using Cons.prems delay_step_bounds by blast
  have "reconnectDelayMs w \<le> reconnectDelayMs ?w1"
    using Cons.prems delay_step_mono [of w ev parse stringify] by simp
  moreover have "reconnectDelayMs ?w1 \<le> reconnectDelayMs (run parse stringify evs ?w1)"
    using Cons.IH [of ?w1] b Cons.prems by simp
  ultimately show ?case by simp
qed

text \<open>
  C1. The reconnect delay starts at the floor of 1500 ms, and on every page the event loop
  can produce it lies between 1500 and 20000. From such a page the close handler sets it to
  the smaller of 20000 and the double product of its value and 1.6, which is within
  \<open>d / 2^50\<close> of \<open>1.6 d\<close> and is never less than the value \<open>d\<close> it had; so does the close
  event of any socket that is not closed yet, an established connection included. Over any
  run of events without a socket opening and without a stop the delay does not decrease.
  The open handler, and so the open event of a connecting socket, puts it back to 1500.
\<close>

theorem reconnect_delay_backoff:
  assumes reach: "w = run parse stringify pre (init proto host)"
  shows "reconnectDelayMs (init proto host) = 1500
    \<and> 1500 \<le> reconnectDelayMs w \<and> reconnectDelayMs w \<le> 20000
    \<and> reconnectDelayMs (ws_onclose env code reason w)
        = min (js_mul (reconnectDelayMs w) js_1_6) 20000
    \<and> reconnectDelayMs w * (16 / 10) \<le> js_mul (reconnectDelayMs w) js_1_6 + reconnectDelayMs w / 2 ^ 50
    \<and> js_mul (reconnectDelayMs w) js_1_6 \<le> reconnectDelayMs w * (16 / 10) + reconnectDelayMs w / 2 ^ 50
    \<and> reconnectDelayMs w \<le> reconnectDelayMs (ws_onclose env code reason w)
    \<and> reconnectDelayMs (ws_onclose env code reason w) \<le> 20000
    \<and> (i < length (sockets w) \<longrightarrow> readyState (sockets w ! i) \<noteq> CLOSED \<longrightarrow>
          reconnectDelayMs (step parse stringify (WsClose i code reason) w)
            = min (js_mul (reconnectDelayMs w) js_1_6) 20000
          \<and> reconnectDelayMs w \<le> reconnectDelayMs (step parse stringify (WsClose i code reason) w))
    \<and> (\<not> list_ex resets evs \<longrightarrow>
          reconnectDelayMs w \<le> reconnectDelayMs (run parse stringify evs w))
    \<and> reconnectDelayMs (ws_onopen w) = 1500
    \<and> (j < length (sockets w) \<longrightarrow> readyState (sockets w ! j) = CONNECTING \<longrightarrow>
          reconnectDelayMs (step parse stringify (WsOpen j) w) = 1500)"
proof -
  let ?d = "reconnectDelayMs w"
  have i: "reconnectDelayMs (init proto host) = 1500" by (simp add: init_def)
  have b: "1500 \<le> ?d \<and> ?d \<le> 20000"
    unfolding reach using delay_run_bounds [of "init proto host"] i by simp
  have one: "1 \<le> ?d" using b by simp
  have g: "?d \<le> min (js_mul ?d js_1_6) 20000" using grown_delay b by blast
  have c: "reconnectDelayMs (step parse stringify (WsClose i code reason) w)
        = min (js_mul ?d js_1_6) 20000"
    if "i < length (sockets w)" "readyState (sockets w ! i) \<noteq> CLOSED"
    using that by (simp add: step_def delay_onclose set_ready_def)
  have r: "?d \<le> reconnectDelayMs (run parse stringify evs w)" if "\<not> list_ex resets evs"
    using b that delay_run_mono by blast
  have p: "reconnectDelayMs (step parse stringify (WsOpen j) w) = 1500"
    if "j < length (sockets w)" "readyState (sockets w ! j) = CONNECTING"
    using that by (simp add: step_def delay_onopen)
  show ?thesis
    using i b g c r p js_mul_1_6_close [OF one] by (simp add: delay_onclose delay_onopen)
qed

theorem reconnect_delay_backoff_witness:
  "open_page = run sample_parse no_stringify
      [StartLive ''testnet'', StartReply 0 ack, WsOpen 0] (init ''http:'' ''localhost'')
   \<and> 0 < length (sockets open_page) \<and> readyState (sockets open_page ! 0) = OPEN
   \<and> reconnectDelayMs open_page = 1500
   \<and> reconnectDelayMs (step sample_parse no_stringify (WsClose 0 1006 []) open_page) = 2400
   \<and> \<not> list_ex resets (drops 0 7)
   \<and> reconnectDelayMs (run sample_parse no_stringify (drops 0 4) open_page)
        = 1351079888211149 / 137438953472
   \<and> reconnectDelayMs (run sample_parse no_stringify (drops 0 7) open_page) = 20000
   \<and> reconnectDelayMs open_page \<le> reconnectDelayMs (run sample_parse no_stringify (drops 0 7) open_page)
   \<and> started_page = run no_parse no_stringify
      [StartLive ''testnet'', StartReply 0 ack] (init ''http:'' ''localhost'')
   \<and> 0 < length (sockets started_page) \<and> readyState (sockets started_page ! 0) = CONNECTING
   \<and> reconnectDelayMs (step no_parse no_stringify (WsOpen 0) started_page) = 1500"
proof -
  have o: "open_page = run sample_parse no_stringify
      [StartLive ''testnet'', StartReply 0 ack, WsOpen 0] (init ''http:'' ''localhost'')"
    by code_simp
  have l: "0 < length (sockets open_page)" by code_simp
  have c: "readyState (sockets open_page ! 0) = OPEN" by code_simp
  have n: "readyState (sockets open_page ! 0) \<noteq> CLOSED" using c by simp
  have d: "reconnectDelayMs open_page = 1500" by code_simp
  have m: "min (js_mul 1500 js_1_6) 20000 = 2400" by code_simp
  have q: "\<not> list_ex resets (drops 0 7)" by code_simp
  have e4: "reconnectDelayMs (run sample_parse no_stringify (drops 0 4) open_page)
        = 1351079888211149 / 137438953472"
    by code_simp
  have e7: "reconnectDelayMs (run sample_parse no_stringify (drops 0 7) open_page) = 20000"
    by code_simp
  have s: "started_page = run no_parse no_stringify
      [StartLive ''testnet'', StartReply 0 ack] (init ''http:'' ''localhost'')"
    by (simp add: started_page_def)
  have sl: "0 < length (sockets started_page)" by code_simp
  have sc: "readyState (sockets started_page ! 0) = CONNECTING" by code_simp
  note t1 = reconnect_delay_backoff [OF o, where i = 0 and code = 1006 and reason = "[]"
      and evs = "drops 0 7"]
  note t2 = reconnect_delay_backoff [OF s, where j = 0]
  show ?thesis using t1 t2 o l c n d m q e4 e7 s sl sc by simp
qed

subsection \<open>Stopping\<close>

lemma reachable_one_socket: "one_socket (run parse stringify evs (init proto host))"
  by (simp add: one_socket_run one_socket_init)

lemma reachable_one_keepalive: "one_keepalive (run parse stringify evs (init proto host))"
  by (simp add: one_keepalive_run one_keepalive_init)

lemma close_live_sockets: "one_socket w \<Longrightarrow> live_sockets (closeUserStreamWS w) = []"
  using close_no_live [of w]
  by (auto simp add: live_sockets_def filter_empty_conv in_set_conv_nth)

lemma stop_releases:
  "(\<forall>t. userStreamReconnectTimer w = Some t \<longrightarrow> t \<notin> fst ` set (timeouts (stopBinanceUserStream w)))
   \<and> (\<forall>t. keepaliveTimer w = Some t \<longrightarrow> t \<notin> fst ` set (intervals (stopBinanceUserStream w)))
   \<and> (\<forall>i. userStreamWS w = Some i \<longrightarrow> i < length (sockets w) \<longrightarrow>
          \<not> live (sockets (stopBinanceUserStream w) ! i))"
  by (auto simp add: stopBinanceUserStream_def closeUserStreamWS_def stopKeepalive_def clearTimeout_def
        clearInterval_def ws_close_def live_def Let_def split: option.splits)

text \<open>
  What \<open>stopBinanceUserStream\<close> does achieve, from any state: it returns (its only call
  that can throw is inside a \<open>try\<close>) with the socket handle, the reconnect-timer handle and
  the keepalive handle null, the started flag false and the delay at 1500; the timeout and
  the interval the handles named are cancelled and the socket the handle named is no longer
  live. On a page the event loop has produced, no socket at all is live and no interval at
  all is active afterwards.
\<close>

lemma stop_clears_handles:
  "userStreamWS (stopBinanceUserStream w) = None
   \<and> userStreamReconnectTimer (stopBinanceUserStream w) = None
   \<and> keepaliveTimer (stopBinanceUserStream w) = None
   \<and> \<not> streamStartedOnce (stopBinanceUserStream w)
   \<and> reconnectDelayMs (stopBinanceUserStream w) = 1500
   \<and> (\<forall>t. userStreamReconnectTimer w = Some t \<longrightarrow> t \<notin> fst ` set (timeouts (stopBinanceUserStream w)))
   \<and> (\<forall>t. keepaliveTimer w = Some t \<longrightarrow> t \<notin> fst ` set (intervals (stopBinanceUserStream w)))
   \<and> (\<forall>i. userStreamWS w = Some i \<longrightarrow> i < length (sockets w) \<longrightarrow>
          \<not> live (sockets (stopBinanceUserStream w) ! i))
   \<and> (w = run parse stringify pre (init proto host) \<longrightarrow>
          live_sockets (stopBinanceUserStream w) = [] \<and> intervals (stopBinanceUserStream w) = [])"
proof -
  have h: "userStreamWS (stopBinanceUserStream w) = None
      \<and> userStreamReconnectTimer (stopBinanceUserStream w) = None
      \<and> keepaliveTimer (stopBinanceUserStream w) = None
      \<and> \<not> streamStartedOnce (stopBinanceUserStream w)
      \<and> reconnectDelayMs (stopBinanceUserStream w) = 1500"
    by (simp add: stopBinanceUserStream_def keep_close stopKeepalive_def clearInterval_def
          split: option.splits)
  have r: "live_sockets (stopBinanceUserStream w) = [] \<and> intervals (stopBinanceUserStream w) = []"
    if "w = run parse stringify pre (init proto host)"
  proof -
    have s: "one_socket (stopKeepalive w)"
      using that reachable_one_socket [of parse stringify pre proto host] by (simp add: one_socket_def)
    have k: "one_keepalive w" using that reachable_one_keepalive by simp
    have "live_sockets (closeUserStreamWS (stopKeepalive w)) = []"
      using s by (rule close_live_sockets)
    then have "live_sockets (stopBinanceUserStream w) = []"
      by (simp add: stopBinanceUserStream_def live_sockets_def)
    moreover have "intervals (stopBinanceUserStream w) = []"
      using stopKeepalive_clears [OF k] by (simp add: stopBinanceUserStream_def keep_close)
    ultimately show ?thesis by simp
  qed
  show ?thesis using h stop_releases [of w] r by blast
qed

subsection \<open>Connecting\<close>

lemma timeouts_close:
  "timeouts (closeUserStreamWS w)
     = (case userStreamReconnectTimer w of
          None \<Rightarrow> timeouts w
        | Some t \<Rightarrow> filter (\<lambda>p. fst p \<noteq> t) (timeouts w))"
  by (simp add: closeUserStreamWS_def clearTimeout_def ws_close_def Let_def split: option.splits)

lemma length_sockets_close [simp]: "length (sockets (closeUserStreamWS w)) = length (sockets w)"
  by (simp add: sockets_close split: option.splits)

text \<open>
  What \<open>connectUserStreamWS\<close> does achieve: the timeout that the handle named is cancelled
  and the socket that the handle named is closed before the new socket is created, and on a
  page the event loop has produced the new socket is then the only live one.
\<close>

lemma connect_releases_first:
  "userStreamWS (connectUserStreamWS env w) = Some (length (sockets w))
   \<and> userStreamReconnectTimer (connectUserStreamWS env w) = None
   \<and> (\<forall>t. userStreamReconnectTimer w = Some t \<longrightarrow>
          t \<notin> fst ` set (timeouts (connectUserStreamWS env w)))
   \<and> length (sockets (connectUserStreamWS env w)) = Suc (length (sockets w))
   \<and> (one_socket w \<longrightarrow> length (live_sockets (connectUserStreamWS env w)) = 1)"
proof -
  let ?c = "closeUserStreamWS w"
  have s: "sockets (connectUserStreamWS env w)
      = sockets ?c @ [\<lparr>url = ws_url env (setConnDot Pending ?c), sock_env = env, readyState = CONNECTING\<rparr>]"
    by (simp add: connectUserStreamWS_def new_WebSocket_def appendWsLog_def setConnDot_def Let_def)
  have h: "userStreamWS (connectUserStreamWS env w) = Some (length (sockets w))"
    by (simp add: connectUserStreamWS_def new_WebSocket_def appendWsLog_def setConnDot_def Let_def)
  have t: "userStreamReconnectTimer (connectUserStreamWS env w) = None"
    by (simp add: connectUserStreamWS_def new_WebSocket_def appendWsLog_def setConnDot_def Let_def)
  have p: "timeouts (connectUserStreamWS env w) = timeouts ?c"
    by (simp add: connectUserStreamWS_def new_WebSocket_def appendWsLog_def setConnDot_def Let_def)
  have c: "\<forall>t. userStreamReconnectTimer w = Some t \<longrightarrow>
          t \<notin> fst ` set (timeouts (connectUserStreamWS env w))"
    by (auto simp add: p timeouts_close)
  have l: "length (live_sockets (connectUserStreamWS env w)) = 1" if "one_socket w"
    using close_live_sockets [OF that] by (simp add: live_sockets_def s live_def)
  show ?thesis using h t c l by (simp add: s)
qed

text \<open>At every moment at most one socket is connecting or open.\<close>

lemma one_live_socket: "length (live_sockets (run parse stringify evs (init proto host))) \<le> 1"
  using reachable_one_socket by (rule at_most_one_live)

text \<open>
  C3. The claim fails for the reconnect timeouts. The close handler stores a new timeout in
  \<open>_userStreamReconnectTimer\<close> without cancelling the one that is there, and the handlers
  of a socket that \<open>closeUserStreamWS\<close> has closed stay attached. After a second
  \<open>startBinanceUserStreamLive\<close> the close event of the replaced socket sets timeout 2; when
  the new socket closes before that timeout fires, timeout 3 takes the handle and both are
  pending. A connect from that state cancels timeout 3 only.
\<close>

theorem two_pending_reconnects:
  "crowded_page = run no_parse no_stringify
      [StartLive ''testnet'', StartReply 0 ack, StartLive ''testnet'', WsClose 0 1006 [], WsClose 1 1006 []]
      (init ''http:'' ''localhost'')
   \<and> pending_reconnects crowded_page = [(2, 1500, Reconnect ''testnet''), (3, 2400, Reconnect ''testnet'')]
   \<and> userStreamReconnectTimer crowded_page = Some 3
   \<and> pending_reconnects (connectUserStreamWS ''testnet'' crowded_page) = [(2, 1500, Reconnect ''testnet'')]"
proof -
  have a: "crowded_page = run no_parse no_stringify
      [StartLive ''testnet'', StartReply 0 ack, StartLive ''testnet'', WsClose 0 1006 [], WsClose 1 1006 []]
      (init ''http:'' ''localhost'')"
    by (simp add: crowded_page_def busy_page_def started_page_def)
  have b: "pending_reconnects crowded_page = [(2, 1500, Reconnect ''testnet''), (3, 2400, Reconnect ''testnet'')]"
    by code_simp
  have c: "userStreamReconnectTimer crowded_page = Some 3" by code_simp
  have d: "pending_reconnects (connectUserStreamWS ''testnet'' crowded_page) = [(2, 1500, Reconnect ''testnet'')]"
    by code_simp
  show ?thesis using a b c d by blast
qed

text \<open>
  C2. The claim fails for the reconnect timeout, by the same defect. Stopping the page above
  cancels timeout 3, which the handle names, and leaves timeout 2 pending although every
  handle is null; when it fires, the manager calls the start endpoint again. The attached
  handlers undo a stop in the plainest run as well: after a start, an open socket and a
  stop, the close event of the socket that the stop has closed sets a reconnect timeout.
\<close>

theorem stop_leaves_reconnect_pending:
  "pending_reconnects (stopBinanceUserStream crowded_page) = [(2, 1500, Reconnect ''testnet'')]
   \<and> userStreamReconnectTimer (stopBinanceUserStream crowded_page) = None
   \<and> starterCalls (stopBinanceUserStream crowded_page) = 1
   \<and> starterCalls (run no_parse no_stringify [Stop, TimeoutFire 2] crowded_page) = 2
   \<and> pendingStarts (run no_parse no_stringify [Stop, TimeoutFire 2] crowded_page) = [''testnet'']
   \<and> pending_reconnects (run no_parse no_stringify [WsOpen 0, Stop] started_page) = []
   \<and> pending_reconnects (run no_parse no_stringify [WsOpen 0, Stop, WsClose 0 1005 []] started_page)
        = [(2, 1500, Reconnect ''testnet'')]"
proof -
  have f: "pending_reconnects (run no_parse no_stringify [WsOpen 0, Stop] started_page) = []"
    by code_simp
  have g: "pending_reconnects (run no_parse no_stringify [WsOpen 0, Stop, WsClose 0 1005 []] started_page)
        = [(2, 1500, Reconnect ''testnet'')]"
    by code_simp
  have a: "pending_reconnects (stopBinanceUserStream crowded_page) = [(2, 1500, Reconnect ''testnet'')]"
    by code_simp
  have b: "userStreamReconnectTimer (stopBinanceUserStream crowded_page) = None" by code_simp
  have c: "starterCalls (stopBinanceUserStream crowded_page) = 1" by code_simp
  have d: "starterCalls (run no_parse no_stringify [Stop, TimeoutFire 2] crowded_page) = 2" by code_simp
  have e: "pendingStarts (run no_parse no_stringify [Stop, TimeoutFire 2] crowded_page) = [''testnet'']"
    by code_simp
  show ?thesis using a b c d e f g by blast
qed

subsection \<open>Starting once\<close>


















subsection \<open>A start that is refused\<close>

lemma resume_nack:
  assumes "\<not> fst (ensureBinanceUserStreamStarted env r w)"
  shows "\<exists>line. startLive_resume env r w
           = closeUserStreamWS (stopKeepalive (setConnDot Fail (appendWsLog line w)))"
proof -
  obtain ok w1 where e: "ensureBinanceUserStreamStarted env r w = (ok, w1)" by force
  then obtain line where w1: "w1 = appendWsLog line w" using ensure_frame by blast
  have "\<not> ok" using assms e by simp
  then show ?thesis using e w1 by (auto simp add: startLive_resume_def)
qed

lemma close_frame:
  "connDot (closeUserStreamWS w) = connDot w
   \<and> intervals (closeUserStreamWS w) = intervals w
   \<and> keepaliveTimer (closeUserStreamWS w) = keepaliveTimer w
   \<and> streamStartedOnce (closeUserStreamWS w) = streamStartedOnce w"
  by (simp add: closeUserStreamWS_def clearTimeout_def ws_close_def Let_def split: option.splits)

lemma stopKeepalive_frame:
  "connDot (stopKeepalive w) = connDot w
   \<and> sockets (stopKeepalive w) = sockets w
   \<and> userStreamWS (stopKeepalive w) = userStreamWS w
   \<and> streamStartedOnce (stopKeepalive w) = streamStartedOnce w
   \<and> keepaliveTimer (stopKeepalive w) = None
   \<and> set (intervals (stopKeepalive w)) \<subseteq> set (intervals w)
   \<and> (\<forall>t. keepaliveTimer w = Some t \<longrightarrow> t \<notin> fst ` set (intervals (stopKeepalive w)))"
  by (auto simp add: stopKeepalive_def clearInterval_def split: option.splits)

lemma close_live:
  "userStreamWS w = Some i \<Longrightarrow> i < length (sockets w) \<Longrightarrow>
   \<not> live (sockets (closeUserStreamWS w) ! i)"
  by (simp add: sockets_close live_ws_close)

lemma halt_effect:
  fixes line w
  defines "h \<equiv> closeUserStreamWS (stopKeepalive (setConnDot Fail (appendWsLog line w)))"
  shows "connDot h = Fail \<and> keepaliveTimer h = None \<and> userStreamWS h = None
   \<and> userStreamReconnectTimer h = None
   \<and> streamStartedOnce h = streamStartedOnce w
   \<and> length (sockets h) = length (sockets w)
   \<and> set (intervals h) \<subseteq> set (intervals w)
   \<and> (\<forall>t. keepaliveTimer w = Some t \<longrightarrow> t \<notin> fst ` set (intervals h))
   \<and> (\<forall>i. userStreamWS w = Some i \<longrightarrow> i < length (sockets w) \<longrightarrow> \<not> live (sockets h ! i))"
proof -
  let ?a = "setConnDot Fail (appendWsLog line w)"
  have a: "connDot ?a = Fail" "sockets ?a = sockets w" "userStreamWS ?a = userStreamWS w"
    "streamStartedOnce ?a = streamStartedOnce w" "intervals ?a = intervals w"
    "keepaliveTimer ?a = keepaliveTimer w"
    by (simp_all add: setConnDot_def appendWsLog_def)
  have l: "\<forall>i. userStreamWS w = Some i \<longrightarrow> i < length (sockets w) \<longrightarrow> \<not> live (sockets h ! i)"
    unfolding h_def using close_live [of "stopKeepalive ?a"] by (simp add: stopKeepalive_frame a)
  show ?thesis
    unfolding h_def using stopKeepalive_frame [of ?a] l
    by (simp add: close_frame a h_def)
qed

lemma no_keepalive_before_ack:
  assumes "w = run parse stringify pre (init proto host)" "\<not> streamStartedOnce w"
  shows "intervals w = []"
proof -
  have k: "one_keepalive w" using assms(1) reachable_one_keepalive by simp
  then have "keepaliveTimer w = None" using assms(2) by (auto simp add: one_keepalive_def)
  then show ?thesis using k by (cases "intervals w") (auto simp add: one_keepalive_def)
qed

text \<open>
  C5. When the start request of an invocation comes back without acknowledgement, the rest
  of the invocation sets the indicator to fail, clears the keepalive handle and cancels the
  interval it named, clears the socket and reconnect-timer handles and closes the socket
  that was held, creates no socket and no interval, and leaves the started flag as it was.
  The part of the invocation before the request, on a stream that is not started, touches
  neither the sockets nor the keepalive. And on every page the event loop can produce, no
  interval is active while the stream is not started.
\<close>

theorem failed_start_halts:
  assumes nack: "\<not> fst (ensureBinanceUserStreamStarted env r w)"
  shows "connDot (startLive_resume env r w) = Fail
    \<and> keepaliveTimer (startLive_resume env r w) = None
    \<and> (\<forall>t. keepaliveTimer w = Some t \<longrightarrow> t \<notin> fst ` set (intervals (startLive_resume env r w)))
    \<and> userStreamWS (startLive_resume env r w) = None
    \<and> userStreamReconnectTimer (startLive_resume env r w) = None
    \<and> (\<forall>i. userStreamWS w = Some i \<longrightarrow> i < length (sockets w) \<longrightarrow>
          \<not> live (sockets (startLive_resume env r w) ! i))
    \<and> length (sockets (startLive_resume env r w)) = length (sockets w)
    \<and> set (intervals (startLive_resume env r w)) \<subseteq> set (intervals w)
    \<and> streamStartedOnce (startLive_resume env r w) = streamStartedOnce w
    \<and> (\<not> streamStartedOnce w \<longrightarrow>
          sockets (startBinanceUserStreamLive env w) = sockets w
          \<and> intervals (startBinanceUserStreamLive env w) = intervals w
          \<and> keepaliveTimer (startBinanceUserStreamLive env w) = keepaliveTimer w)
    \<and> (w = run parse stringify pre (init proto host) \<longrightarrow> \<not> streamStartedOnce w \<longrightarrow>
          intervals w = [])"
proof -
  obtain line where l: "startLive_resume env r w
      = closeUserStreamWS (stopKeepalive (setConnDot Fail (appendWsLog line w)))"
    using resume_nack [OF nack] by blast
  have b: "\<not> streamStartedOnce w \<longrightarrow>
          sockets (startBinanceUserStreamLive env w) = sockets w
          \<and> intervals (startBinanceUserStreamLive env w) = intervals w
          \<and> keepaliveTimer (startBinanceUserStreamLive env w) = keepaliveTimer w"
    by (simp add: startBinanceUserStreamLive_def setConnDot_def Let_def)
  show ?thesis
    unfolding l using halt_effect [of line w] b no_keepalive_before_ack [of w parse stringify pre proto host]
    by simp
qed

theorem failed_start_halts_witness:
  "\<not> fst (ensureBinanceUserStreamStarted ''testnet'' nack overlapped_page)
   \<and> keepaliveTimer overlapped_page = Some 1 \<and> userStreamWS overlapped_page = Some 0
   \<and> 0 < length (sockets overlapped_page) \<and> live (sockets overlapped_page ! 0)
   \<and> connDot (startLive_resume ''testnet'' nack overlapped_page) = Fail
   \<and> 1 \<notin> fst ` set (intervals (startLive_resume ''testnet'' nack overlapped_page))
   \<and> \<not> live (sockets (startLive_resume ''testnet'' nack overlapped_page) ! 0)
   \<and> length (sockets (startLive_resume ''testnet'' nack overlapped_page)) = 1
   \<and> \<not> streamStartedOnce (init ''http:'' ''localhost'')
   \<and> sockets (startBinanceUserStreamLive ''testnet'' (init ''http:'' ''localhost'')) = []
   \<and> intervals (init ''http:'' ''localhost'') = []"
proof -
  have n: "\<not> fst (ensureBinanceUserStreamStarted ''testnet'' nack overlapped_page)" by code_simp
  have k: "keepaliveTimer overlapped_page = Some 1" by code_simp
  have u: "userStreamWS overlapped_page = Some 0" by code_simp
  have l: "0 < length (sockets overlapped_page)" by code_simp
  have v: "live (sockets overlapped_page ! 0)" by code_simp
  have s: "length (sockets overlapped_page) = 1" by code_simp
  have n0: "\<not> fst (ensureBinanceUserStreamStarted ''testnet'' nack (init ''http:'' ''localhost''))"
    by code_simp
  have f: "\<not> streamStartedOnce (init ''http:'' ''localhost'')" by (simp add: init_def)
  have e: "sockets (init ''http:'' ''localhost'') = []" by (simp add: init_def)
  have i: "init ''http:'' ''localhost'' = run no_parse no_stringify [] (init ''http:'' ''localhost'')"
    by simp
  note t1 = failed_start_halts [OF n]
  note t0 = failed_start_halts [where w = "init ''http:'' ''localhost''" and env = "''testnet''"
      and r = nack and parse = no_parse and stringify = no_stringify and pre = "[]"
      and proto = "''http:''" and host = "''localhost''", OF n0]
  show ?thesis using t1 t0 n k u l v s f e i by simp
qed

subsection \<open>Messages: the balance refresh\<close>

lemma js_get_total:
  "msg \<noteq> JNull \<Longrightarrow> msg \<noteq> JUndefined \<Longrightarrow> js_get msg k = Inr (js_get_opt msg k)"
  by (cases msg) simp_all

lemma falsy_has_no_fields: "\<not> truthy d \<Longrightarrow> js_get_opt d k = JUndefined"
  by (cases d) simp_all

lemma truthy_not_null: "truthy d \<Longrightarrow> d \<noteq> JNull \<and> d \<noteq> JUndefined"
  by (cases d) simp_all

lemma eventType_inner:
  assumes "msg \<noteq> JNull" "msg \<noteq> JUndefined"
  shows "eventType_of msg = Inr (js_or (inner_type msg) (JStr ''unknown_event''))"
proof (cases "truthy (js_get_opt msg ''data'')")
  case True
  then show ?thesis using assms truthy_not_null [OF True]
    by (simp add: eventType_of_def andThen_def js_get_total js_or_def inner_type_def Let_def)
next
  case False
  then show ?thesis using assms falsy_has_no_fields [OF False]
    by (simp add: eventType_of_def andThen_def js_get_total js_or_def inner_type_def Let_def)
qed

lemma eventType_qualifies:
  assumes "msg \<noteq> JNull" "msg \<noteq> JUndefined"
  shows "(eventType_of msg = Inr (JStr ''outboundAccountPosition'') \<or> eventType_of msg = Inr (JStr ''balanceUpdate''))
     = (inner_type msg = JStr ''outboundAccountPosition'' \<or> inner_type msg = JStr ''balanceUpdate'')"
  unfolding eventType_inner [OF assms] by (auto simp add: js_or_def)

lemma typed_not_null:
  "js_get_opt msg ''type'' = JStr s \<Longrightarrow> msg \<noteq> JNull \<and> msg \<noteq> JUndefined"
  by (cases msg) simp_all

lemma dispatch_binance:
  assumes "js_get msg ''type'' = Inr (JStr ''binance_event'')"
  shows "dispatch stringify env msg w =
     andThen (eventType_of msg) (\<lambda>eventType.
       andThen (toStr eventType) (\<lambda>t.
         let w1 = setConnDot Ok (appendWsLog (''Event: '' @ t) w)
         in if eventType = JStr ''outboundAccountPosition'' \<or> eventType = JStr ''balanceUpdate''
            then Inr (snd (setTimeout Refresh 400 w1))
            else Inr w1))"
  using assms by (simp add: dispatch_def andThen_def)

lemma binance_effect:
  assumes "js_get msg ''type'' = Inr (JStr ''binance_event'')"
  shows "timeouts (settle w (dispatch stringify env msg w))
       = timeouts w @ (if eventType_of msg = Inr (JStr ''outboundAccountPosition'')
                          \<or> eventType_of msg = Inr (JStr ''balanceUpdate'')
                       then [(nextTimerId w, 400, Refresh)] else [])
     \<and> nextTimerId (settle w (dispatch stringify env msg w))
       = nextTimerId w + (if eventType_of msg = Inr (JStr ''outboundAccountPosition'')
                          \<or> eventType_of msg = Inr (JStr ''balanceUpdate'') then 1 else 0)
     \<and> balanceLoads (settle w (dispatch stringify env msg w)) = balanceLoads w"
  unfolding dispatch_binance [OF assms]
  by (cases "eventType_of msg")
     (auto simp add: andThen_def settle_def setTimeout_def setConnDot_def appendWsLog_def Let_def
        split: sum.splits)

lemma dispatch_other:
  "dispatch stringify env msg w = Inr w1 \<Longrightarrow> js_get msg ''type'' \<noteq> Inr (JStr ''binance_event'') \<Longrightarrow>
   timeouts w1 = timeouts w \<and> nextTimerId w1 = nextTimerId w \<and> balanceLoads w1 = balanceLoads w"
  by (auto simp add: dispatch_def andThen_def appendWsLog_def setConnDot_def Let_def
        split: sum.splits if_splits)

lemma other_effect:
  assumes "js_get msg ''type'' \<noteq> Inr (JStr ''binance_event'')"
  shows "timeouts (settle w (dispatch stringify env msg w)) = timeouts w
    \<and> nextTimerId (settle w (dispatch stringify env msg w)) = nextTimerId w
    \<and> balanceLoads (settle w (dispatch stringify env msg w)) = balanceLoads w"
proof (cases "dispatch stringify env msg w")
  case (Inl e)
  then show ?thesis by (simp add: settle_def)
next
  case (Inr w1)
  then show ?thesis using dispatch_other [OF Inr assms] by (simp add: settle_def)
qed

lemma dispatch_effect:
  "timeouts (settle w (dispatch stringify env msg w))
     = timeouts w @ (if balance_event msg then [(nextTimerId w, 400, Refresh)] else [])
   \<and> nextTimerId (settle w (dispatch stringify env msg w))
     = nextTimerId w + (if balance_event msg then 1 else 0)
   \<and> balanceLoads (settle w (dispatch stringify env msg w)) = balanceLoads w"
proof (cases "js_get msg ''type'' = Inr (JStr ''binance_event'')")
  case True
  then have t: "js_get_opt msg ''type'' = JStr ''binance_event''" by (cases msg) simp_all
  have nn: "msg \<noteq> JNull" "msg \<noteq> JUndefined" using typed_not_null [OF t] by simp_all
  show ?thesis
    using binance_effect [OF True, of w stringify env] eventType_qualifies [OF nn] t
    by (simp add: balance_event_def)
next
  case False
  have "\<not> balance_event msg"
  proof
    assume b: "balance_event msg"
    then have t: "js_get_opt msg ''type'' = JStr ''binance_event''" by (simp add: balance_event_def)
    have "msg \<noteq> JNull" "msg \<noteq> JUndefined" using typed_not_null [OF t] by simp_all
    then have "js_get msg ''type'' = Inr (JStr ''binance_event'')" using t by (simp add: js_get_total)
    then show False using False by simp
  qed
  then show ?thesis using other_effect [OF False, of w stringify env] by simp
qed

lemma message_sockets:
  "sockets (settle w (ws_onmessage parse stringify env d w)) = sockets w"
  by (auto simp add: settle_def ws_onmessage_def appendWsLog_def
        dest: dispatch_frame split: sum.splits option.splits)

lemma message_effect:
  "timeouts (settle w (ws_onmessage parse stringify env d w))
     = timeouts w @ (if refreshing parse d then [(nextTimerId w, 400, Refresh)] else [])
   \<and> nextTimerId (settle w (ws_onmessage parse stringify env d w))
     = nextTimerId w + (if refreshing parse d then 1 else 0)
   \<and> balanceLoads (settle w (ws_onmessage parse stringify env d w)) = balanceLoads w"
proof (cases "parse d")
  case None
  then show ?thesis by (simp add: ws_onmessage_def settle_def refreshing_def appendWsLog_def)
next
  case (Some msg)
  then show ?thesis using dispatch_effect [of w stringify env msg]
    by (simp add: ws_onmessage_def refreshing_def)
qed


lemma fresh_init: "fresh_timers (init proto host)"
  by (simp add: fresh_timers_def init_def)

lemma fresh_close: "fresh_timers w \<Longrightarrow> fresh_timers (closeUserStreamWS w)"
  by (auto simp add: fresh_timers_def closeUserStreamWS_def clearTimeout_def ws_close_def Let_def
        split: option.splits)

lemma fresh_stopKeepalive: "fresh_timers w \<Longrightarrow> fresh_timers (stopKeepalive w)"
  by (simp add: fresh_timers_def stopKeepalive_def clearInterval_def split: option.splits)

lemma fresh_startKeepalive: "fresh_timers w \<Longrightarrow> fresh_timers (startKeepalive env w)"
  by (auto simp add: fresh_timers_def startKeepalive_def setInterval_def stopKeepalive_def clearInterval_def
        Let_def less_Suc_eq split: option.splits)

lemma fresh_connect: "fresh_timers w \<Longrightarrow> fresh_timers (connectUserStreamWS env w)"
proof -
  assume "fresh_timers w"
  then have "fresh_timers (closeUserStreamWS w)" by (rule fresh_close)
  then show ?thesis
    by (simp add: fresh_timers_def connectUserStreamWS_def new_WebSocket_def appendWsLog_def
          setConnDot_def Let_def)
qed

lemma fresh_startLive: "fresh_timers w \<Longrightarrow> fresh_timers (startBinanceUserStreamLive env w)"
proof -
  assume a: "fresh_timers w"
  then have "fresh_timers (setConnDot Pending w)" by (simp add: fresh_timers_def setConnDot_def)
  then have "fresh_timers (connectUserStreamWS env (setConnDot Pending w))" by (rule fresh_connect)
  then show ?thesis using a
    by (auto simp add: startBinanceUserStreamLive_def Let_def) (simp add: fresh_timers_def setConnDot_def)
qed

lemma fresh_resume:
  assumes "fresh_timers w" shows "fresh_timers (startLive_resume env r w)"
proof -
  obtain ok w1 where e: "ensureBinanceUserStreamStarted env r w = (ok, w1)" by force
  then obtain line where w1: "w1 = appendWsLog line w" using ensure_frame by blast
  have o: "fresh_timers w1" using assms by (simp add: w1 fresh_timers_def appendWsLog_def)
  show ?thesis
  proof (cases ok)
    case True
    have "fresh_timers (w1\<lparr>streamStartedOnce := True\<rparr>)" using o by (simp add: fresh_timers_def)
    then have "fresh_timers (startKeepalive env (w1\<lparr>streamStartedOnce := True\<rparr>))"
      by (rule fresh_startKeepalive)
    then show ?thesis using e True by (simp add: startLive_resume_def fresh_connect)
  next
    case False
    have "fresh_timers (setConnDot Fail w1)" using o by (simp add: fresh_timers_def setConnDot_def)
    then have "fresh_timers (stopKeepalive (setConnDot Fail w1))" by (rule fresh_stopKeepalive)
    then show ?thesis using e False by (simp add: startLive_resume_def fresh_close)
  qed
qed

lemma fresh_stop: "fresh_timers w \<Longrightarrow> fresh_timers (stopBinanceUserStream w)"
proof -
  assume "fresh_timers w"
  then have "fresh_timers (closeUserStreamWS (stopKeepalive w))"
    by (intro fresh_close fresh_stopKeepalive)
  then show ?thesis by (simp add: stopBinanceUserStream_def fresh_timers_def)
qed

lemma fresh_message:
  assumes "fresh_timers w"
  shows "fresh_timers (settle w (ws_onmessage parse stringify env d w))"
  using assms message_effect [of w parse stringify env d]
  by (auto simp add: fresh_timers_def less_Suc_eq)

lemma fresh_tick: "fresh_timers w \<Longrightarrow> fresh_timers (keepalive_tick env r w)"
  by (auto simp add: fresh_timers_def keepalive_tick_def keepalive_try_def andThen_def appendWsLog_def
        split: response.splits sum.splits)

lemma fresh_step: "fresh_timers w \<Longrightarrow> fresh_timers (step parse stringify ev w)"
proof (cases ev)
  case (StartLive env)
  assume "fresh_timers w" then show ?thesis using StartLive by (simp add: step_def fresh_startLive)
next
  case (StartReply k r)
  assume a: "fresh_timers w"
  have "fresh_timers (w\<lparr>pendingStarts := take k (pendingStarts w) @ drop (Suc k) (pendingStarts w)\<rparr>)"
    using a by (simp add: fresh_timers_def)
  then show ?thesis using StartReply a by (simp add: step_def fresh_resume)
next
  case Stop
  assume "fresh_timers w" then show ?thesis using Stop by (simp add: step_def fresh_stop)
next
  case (WsOpen i)
  assume "fresh_timers w" then show ?thesis using WsOpen
    by (simp add: step_def ws_onopen_def fresh_timers_def prim_defs)
next
  case (WsMessage i d)
  assume "fresh_timers w" then show ?thesis using WsMessage by (simp add: step_def fresh_message)
next
  case (WsClose i code reason)
  assume "fresh_timers w" then show ?thesis using WsClose
    by (auto simp add: step_def ws_onclose_def fresh_timers_def prim_defs Let_def less_Suc_eq)
next
  case (WsError i)
  assume "fresh_timers w" then show ?thesis using WsError
    by (simp add: step_def ws_onerror_def fresh_timers_def prim_defs)
next
  case (TimeoutFire t)
  assume a: "fresh_timers w"
  have c: "fresh_timers (clearTimeout t w)" using a by (simp add: fresh_timers_def clearTimeout_def)
  then have "fresh_timers (startBinanceUserStreamLive env (clearTimeout t w))" for env
    by (rule fresh_startLive)
  moreover have "fresh_timers ((clearTimeout t w)\<lparr>balanceLoads := n\<rparr>)" for n
    using c by (simp add: fresh_timers_def)
  ultimately show ?thesis using TimeoutFire a
    by (simp add: step_def fire_def split: option.splits action.splits)
next
  case (IntervalTick t r)
  assume "fresh_timers w" then show ?thesis using IntervalTick
    by (simp add: step_def fresh_tick split: option.splits)
qed

lemma fresh_run: "fresh_timers w \<Longrightarrow> fresh_timers (run parse stringify evs w)"
  by (induction evs arbitrary: w) (simp_all add: fresh_step)

lemma reachable_fresh: "fresh_timers (run parse stringify evs (init proto host))"
  by (simp add: fresh_run fresh_init)

lemma map_of_after_clear:
  "t' \<noteq> t \<Longrightarrow> map_of (filter (\<lambda>p. fst p \<noteq> t) xs) t' = map_of xs t'"
  by (induction xs) auto

lemma fire_refresh:
  assumes "map_of (timeouts v) t = Some (ms, Refresh)"
  shows "step parse stringify (TimeoutFire t) v
      = (clearTimeout t v)\<lparr>balanceLoads := Suc (balanceLoads v)\<rparr>"
  using assms by (simp add: step_def fire_def clearTimeout_def)

lemma fire_refreshes:
  "distinct ts \<Longrightarrow> (\<forall>t \<in> set ts. \<exists>ms. map_of (timeouts v) t = Some (ms, Refresh)) \<Longrightarrow>
   balanceLoads (run parse stringify (map TimeoutFire ts) v) = balanceLoads v + length ts"
proof (induction ts arbitrary: v)
  case Nil
  then show ?case by simp
next
  case (Cons t ts)
  obtain ms where m: "map_of (timeouts v) t = Some (ms, Refresh)" using Cons.prems(2) by auto
  let ?v1 = "step parse stringify (TimeoutFire t) v"
  have v1: "?v1 = (clearTimeout t v)\<lparr>balanceLoads := Suc (balanceLoads v)\<rparr>"
    by (rule fire_refresh [OF m])
  have "\<forall>t' \<in> set ts. \<exists>ms. map_of (timeouts ?v1) t' = Some (ms, Refresh)"
  proof
    fix t' assume t': "t' \<in> set ts"
    then have "t' \<noteq> t" using Cons.prems(1) by auto
    then have "map_of (timeouts ?v1) t' = map_of (timeouts v) t'"
      by (simp add: v1 clearTimeout_def map_of_after_clear)
    then show "\<exists>ms. map_of (timeouts ?v1) t' = Some (ms, Refresh)" using Cons.prems(2) t' by simp
  qed
  then have "balanceLoads (run parse stringify (map TimeoutFire ts) ?v1) = balanceLoads ?v1 + length ts"
    using Cons.IH [of ?v1] Cons.prems(1) by simp
  then show ?case by (simp add: v1 clearTimeout_def)
qed

lemma scheduled_lookup:
  assumes f: "\<forall>p \<in> set old. fst p < a" and k: "k < n"
  shows "map_of (old @ map (\<lambda>k. (a + k, 400::rat, Refresh)) [0..<n]) (a + k) = Some (400, Refresh)"
proof -
  have "map_of old (a + k) = None"
  proof (cases "map_of old (a + k)")
    case None then show ?thesis .
  next
    case (Some y)
    then have "(a + k, y) \<in> set old" by (rule map_of_SomeD)
    then show ?thesis using f by fastforce
  qed
  moreover have "map_of (map (\<lambda>k. (a + k, 400::rat, Refresh)) [0..<n]) (a + k) = Some (400, Refresh)"
  proof (rule map_of_is_SomeI)
    show "distinct (map fst (map (\<lambda>k. (a + k, 400::rat, Refresh)) [0..<n]))"
      by (simp add: distinct_map comp_def inj_on_def)
    show "(a + k, 400, Refresh) \<in> set (map (\<lambda>k. (a + k, 400::rat, Refresh)) [0..<n])"
      using k by auto
  qed
  ultimately show ?thesis by (simp add: map_add_def)
qed

lemma messages_effect:
  "i < length (sockets w) \<Longrightarrow> readyState (sockets w ! i) = OPEN \<Longrightarrow>
   timeouts (run parse stringify (map (WsMessage i) ds) w)
     = timeouts w @ map (\<lambda>k. (nextTimerId w + k, 400, Refresh)) [0..<length (filter (refreshing parse) ds)]
   \<and> balanceLoads (run parse stringify (map (WsMessage i) ds) w) = balanceLoads w"
proof (induction ds arbitrary: w)
  case Nil
  then show ?case by simp
next
  case (Cons d ds)
  let ?w1 = "step parse stringify (WsMessage i d) w"
  have s: "?w1 = settle w (ws_onmessage parse stringify (sock_env (sockets w ! i)) d w)"
    using Cons.prems by (simp add: step_def)
  have so: "sockets ?w1 = sockets w" by (simp add: s message_sockets)
  have t: "timeouts ?w1 = timeouts w @ (if refreshing parse d then [(nextTimerId w, 400, Refresh)] else [])"
    and n: "nextTimerId ?w1 = nextTimerId w + (if refreshing parse d then 1 else 0)"
    and l: "balanceLoads ?w1 = balanceLoads w"
    using message_effect [of w parse stringify "sock_env (sockets w ! i)" d] by (simp_all add: s)
  have ih: "timeouts (run parse stringify (map (WsMessage i) ds) ?w1)
     = timeouts ?w1 @ map (\<lambda>k. (nextTimerId ?w1 + k, 400, Refresh)) [0..<length (filter (refreshing parse) ds)]
     \<and> balanceLoads (run parse stringify (map (WsMessage i) ds) ?w1) = balanceLoads ?w1"
    using Cons.IH [of ?w1] Cons.prems so by simp
  show ?case
  proof (cases "refreshing parse d")
    case True
    have "map (\<lambda>k. (nextTimerId w + k, 400, Refresh)) [0..<Suc (length (filter (refreshing parse) ds))]
        = (nextTimerId w, 400, Refresh)
          # map (\<lambda>k. (Suc (nextTimerId w) + k, 400::rat, Refresh)) [0..<length (filter (refreshing parse) ds)]"
      by (simp add: upt_conv_Cons map_Suc_upt [symmetric] del: upt_Suc)
    then show ?thesis using True ih t n l by simp
  next
    case False
    then show ?thesis using ih t n l by simp
  qed
qed


lemma run_append:
  "run parse stringify (xs @ ys) w = run parse stringify ys (run parse stringify xs w)"
  by (induction xs arbitrary: w) simp_all

lemma clear_scheduled:
  assumes "\<forall>p \<in> set old. fst p < (a::nat)"
  shows "filter (\<lambda>p. fst p \<noteq> a) (old @ [(a, ms, f)]) = old"
proof -
  have "\<forall>p \<in> set old. fst p \<noteq> a" using assms by fastforce
  then have "filter (\<lambda>p. fst p \<noteq> a) old = old" by (simp add: filter_id_conv)
  then show ?thesis by simp
qed

text \<open>
  C6. On every page the event loop can produce, dispatching an envelope adds exactly one
  timeout when the envelope is a \<open>binance_event\<close> whose inner event type is
  \<open>outboundAccountPosition\<close> or \<open>balanceUpdate\<close>, and adds none otherwise; the timeout is of
  400 ms, and nothing is refreshed before it fires. When it fires, \<open>loadBalances\<close> is called
  exactly once and the timeout is gone. Over any sequence of messages on an open socket the
  timeouts added are one of 400 ms for each such envelope, each with a handle of its own,
  and when those N timeouts have fired \<open>loadBalances\<close> has been called N times.
\<close>

theorem balance_refresh_per_event:
  assumes reach: "w = run parse stringify pre (init proto host)"
  shows "timeouts (settle w (dispatch stringify env msg w))
        = timeouts w @ (if balance_event msg then [(nextTimerId w, 400, Refresh)] else [])
    \<and> balanceLoads (settle w (dispatch stringify env msg w)) = balanceLoads w
    \<and> (balance_event msg \<longrightarrow>
          balanceLoads (step parse stringify (TimeoutFire (nextTimerId w))
                          (settle w (dispatch stringify env msg w))) = Suc (balanceLoads w)
          \<and> timeouts (step parse stringify (TimeoutFire (nextTimerId w))
                          (settle w (dispatch stringify env msg w))) = timeouts w)
    \<and> (i < length (sockets w) \<longrightarrow> readyState (sockets w ! i) = OPEN \<longrightarrow>
          timeouts (run parse stringify (map (WsMessage i) ds) w)
            = timeouts w @ map (\<lambda>k. (nextTimerId w + k, 400, Refresh))
                               [0..<length (filter (refreshing parse) ds)]
          \<and> balanceLoads (run parse stringify (map (WsMessage i) ds) w) = balanceLoads w
          \<and> balanceLoads (run parse stringify
                (map (WsMessage i) ds
                 @ map (\<lambda>k. TimeoutFire (nextTimerId w + k)) [0..<length (filter (refreshing parse) ds)])
                w)
              = balanceLoads w + length (filter (refreshing parse) ds))"
proof -
  let ?a = "nextTimerId w"
  let ?w1 = "settle w (dispatch stringify env msg w)"
  have fr: "\<forall>p \<in> set (timeouts w). fst p < ?a"
    using reachable_fresh [of parse stringify pre proto host] by (simp add: reach fresh_timers_def)
  note e = dispatch_effect [of w stringify env msg]
  have one: "balanceLoads (step parse stringify (TimeoutFire ?a) ?w1) = Suc (balanceLoads w)
          \<and> timeouts (step parse stringify (TimeoutFire ?a) ?w1) = timeouts w"
    if b: "balance_event msg"
  proof -
    have t: "timeouts ?w1 = timeouts w @ [(?a, 400, Refresh)]" using e b by simp
    have "timeouts ?w1 = timeouts w @ map (\<lambda>k. (?a + k, 400, Refresh)) [0..<1]" using t by simp
    then have m: "map_of (timeouts ?w1) ?a = Some (400, Refresh)"
      using scheduled_lookup [OF fr, of 0 1] by simp
    have "timeouts (clearTimeout ?a ?w1) = filter (\<lambda>p. fst p \<noteq> ?a) (timeouts w @ [(?a, 400, Refresh)])"
      by (simp only: clearTimeout_def t) simp
    then have c: "timeouts (clearTimeout ?a ?w1) = timeouts w"
      by (simp only: clear_scheduled [OF fr])
    have l: "balanceLoads ?w1 = balanceLoads w" using e by simp
    show ?thesis
      unfolding fire_refresh [OF m] using c l by simp
  qed
  have many: "timeouts (run parse stringify (map (WsMessage i) ds) w)
            = timeouts w @ map (\<lambda>k. (?a + k, 400, Refresh)) [0..<length (filter (refreshing parse) ds)]
          \<and> balanceLoads (run parse stringify (map (WsMessage i) ds) w) = balanceLoads w
          \<and> balanceLoads (run parse stringify
                (map (WsMessage i) ds
                 @ map (\<lambda>k. TimeoutFire (?a + k)) [0..<length (filter (refreshing parse) ds)]) w)
              = balanceLoads w + length (filter (refreshing parse) ds)"
    if o: "i < length (sockets w)" "readyState (sockets w ! i) = OPEN"
  proof -
    let ?n = "length (filter (refreshing parse) ds)"
    let ?v = "run parse stringify (map (WsMessage i) ds) w"
    let ?ts = "map (\<lambda>k. ?a + k) [0..<?n]"
    note m = messages_effect [OF o, of parse stringify ds]
    have d: "distinct ?ts" by (simp add: distinct_map inj_on_def)
    have "\<forall>t \<in> set ?ts. \<exists>ms. map_of (timeouts ?v) t = Some (ms, Refresh)"
    proof
      fix t assume "t \<in> set ?ts"
      then have "t \<in> (\<lambda>k. ?a + k) ` set [0..<?n]" by (simp only: set_map)
      then obtain k where "k \<in> set [0..<?n]" and tk: "t = ?a + k" by (rule imageE)
      then have k: "k < ?n" "t = ?a + k" by simp_all
      have "map_of (timeouts ?v) (?a + k) = Some (400, Refresh)"
        using scheduled_lookup [OF fr k(1)] m by (simp only:)
      then show "\<exists>ms. map_of (timeouts ?v) t = Some (ms, Refresh)" using k(2) by blast
    qed
    then have fl: "balanceLoads (run parse stringify (map TimeoutFire ?ts) ?v) = balanceLoads ?v + length ?ts"
      using fire_refreshes [OF d] by blast
    have eq: "map (\<lambda>k. TimeoutFire (?a + k)) [0..<?n] = map TimeoutFire ?ts" by (simp add: comp_def)
    have "balanceLoads (run parse stringify (map (WsMessage i) ds @ map (\<lambda>k. TimeoutFire (?a + k)) [0..<?n]) w)
        = balanceLoads ?v + length ?ts"
      unfolding run_append eq by (rule fl)
    then show ?thesis using m by simp
  qed
  show ?thesis using e one many by blast
qed

theorem balance_refresh_per_event_witness:
  "open_page = run sample_parse no_stringify
      [StartLive ''testnet'', StartReply 0 ack, WsOpen 0] (init ''http:'' ''localhost'')
   \<and> balance_event position_msg \<and> balance_event fallback_msg \<and> \<not> balance_event order_msg
   \<and> timeouts (settle open_page (dispatch no_stringify ''testnet'' position_msg open_page))
        = [(2, 400, Refresh)]
   \<and> timeouts (settle open_page (dispatch no_stringify ''testnet'' fallback_msg open_page))
        = [(2, 400, Refresh)]
   \<and> timeouts (settle open_page (dispatch no_stringify ''testnet'' order_msg open_page)) = []
   \<and> balanceLoads (step sample_parse no_stringify (TimeoutFire 2)
        (settle open_page (dispatch no_stringify ''testnet'' position_msg open_page))) = 1
   \<and> 0 < length (sockets open_page) \<and> readyState (sockets open_page ! 0) = OPEN
   \<and> filter (refreshing sample_parse)
        [balance_text, order_text, ''oops'', position_text, fallback_text, status_one_text]
        = [balance_text, position_text, fallback_text]
   \<and> timeouts (run sample_parse no_stringify
        (map (WsMessage 0) [balance_text, order_text, ''oops'', position_text, fallback_text, status_one_text])
        open_page)
        = [(2, 400, Refresh), (3, 400, Refresh), (4, 400, Refresh)]
   \<and> balanceLoads (run sample_parse no_stringify
        (map (WsMessage 0) [balance_text, order_text, ''oops'', position_text, fallback_text, status_one_text]
         @ [TimeoutFire 2, TimeoutFire 3, TimeoutFire 4])
        open_page) = 3"
proof -
  have o: "open_page = run sample_parse no_stringify
      [StartLive ''testnet'', StartReply 0 ack, WsOpen 0] (init ''http:'' ''localhost'')"
    by code_simp
  have a: "balance_event position_msg" "balance_event fallback_msg" "\<not> balance_event order_msg"
    by code_simp+
  have c: "0 < length (sockets open_page)" by code_simp
  have d: "readyState (sockets open_page ! 0) = OPEN" by code_simp
  have e: "filter (refreshing sample_parse)
        [balance_text, order_text, ''oops'', position_text, fallback_text, status_one_text]
        = [balance_text, position_text, fallback_text]" by code_simp
  have f: "timeouts open_page = []" by code_simp
  have g: "nextTimerId open_page = 2" by code_simp
  have h: "balanceLoads open_page = 0" by code_simp
  have u: "map (\<lambda>k. (2 + k, 400::rat, Refresh)) [0..<3]
      = [(2, 400, Refresh), (3, 400, Refresh), (4, 400, Refresh)]"
    by code_simp
  have v: "map (\<lambda>k. TimeoutFire (2 + k)) [0..<3] = [TimeoutFire 2, TimeoutFire 3, TimeoutFire 4]"
    by code_simp
  note t1 = balance_refresh_per_event [OF o, where msg = position_msg and env = "''testnet''" and i = 0
      and ds = "[balance_text, order_text, ''oops'', position_text, fallback_text, status_one_text]"]
  note t2 = balance_refresh_per_event [OF o, where msg = fallback_msg and env = "''testnet''"]
  note t3 = balance_refresh_per_event [OF o, where msg = order_msg and env = "''testnet''"]
  have p1: "timeouts (settle open_page (dispatch no_stringify ''testnet'' position_msg open_page))
        = [(2, 400, Refresh)]"
    using t1 a f g by simp
  have p2: "timeouts (settle open_page (dispatch no_stringify ''testnet'' fallback_msg open_page))
        = [(2, 400, Refresh)]"
    using t2 a f g by simp
  have p3: "timeouts (settle open_page (dispatch no_stringify ''testnet'' order_msg open_page)) = []"
    using t3 a f by simp
  have p4: "balanceLoads (step sample_parse no_stringify (TimeoutFire 2)
        (settle open_page (dispatch no_stringify ''testnet'' position_msg open_page))) = 1"
    using t1 a g h by simp
  note m = t1 [THEN conjunct2, THEN conjunct2, THEN conjunct2, rule_format, OF c d]
  have len: "length [balance_text, position_text, fallback_text] = 3" by simp
  have p5: "timeouts (run sample_parse no_stringify
        (map (WsMessage 0) [balance_text, order_text, ''oops'', position_text, fallback_text, status_one_text])
        open_page)
        = [(2, 400, Refresh), (3, 400, Refresh), (4, 400, Refresh)]"
    using m [THEN conjunct1] by (simp only: e f g len u append_Nil)
  have p6: "balanceLoads (run sample_parse no_stringify
        (map (WsMessage 0) [balance_text, order_text, ''oops'', position_text, fallback_text, status_one_text]
         @ [TimeoutFire 2, TimeoutFire 3, TimeoutFire 4])
        open_page) = 3"
    using m [THEN conjunct2, THEN conjunct2] by (simp only: e f g h len v add_0)
  show ?thesis using o a c d e p1 p2 p3 p4 p5 p6 by blast
qed

subsection \<open>Messages: status and error\<close>

lemma typed_is_object:
  "js_get msg k = Inr (JStr s) \<Longrightarrow> \<exists>kvs. msg = JObj kvs"
  by (cases msg) simp_all

lemma js_get_object [simp]: "js_get (JObj kvs) k = Inr (js_get_opt (JObj kvs) k)"
  by simp

lemma printableE: "printable v \<Longrightarrow> \<exists>t. toStr v = Inr t"
  by (cases "toStr v") (simp_all add: printable_def)

lemma printable_or: "printable a \<Longrightarrow> printable (js_or a (JStr s))"
  by (simp add: js_or_def printable_def)

lemma dispatch_status:
  assumes ty: "js_get msg ''type'' = Inr (JStr ''status'')"
    and ph: "printable (js_get_opt msg ''phase'')"
    and en: "printable (js_get_opt msg ''env'')"
  shows "\<exists>line. dispatch stringify env msg w
      = Inr (setConnDot (if truthy (js_get_opt msg ''connected'') then Ok else Fail) (appendWsLog line w))"
proof -
  obtain kvs where m: "msg = JObj kvs" using typed_is_object [OF ty] by blast
  obtain p where p: "toStr (js_get_opt msg ''phase'') = Inr p" using printableE [OF ph] by blast
  obtain e where e: "toStr (js_or (js_get_opt msg ''env'') (JStr env)) = Inr e"
    using printableE [OF printable_or [OF en]] by blast
  show ?thesis using ty p e unfolding m
    by (auto simp add: dispatch_def andThen_def Let_def simp del: js_get.simps js_get_opt.simps)
qed

lemma dispatch_error:
  assumes ty: "js_get msg ''type'' = Inr (JStr ''error'')"
    and er: "printable (js_get_opt msg ''error'')"
  shows "\<exists>line. dispatch stringify env msg w = Inr (setConnDot Fail (appendWsLog line w))"
proof -
  obtain kvs where m: "msg = JObj kvs" using typed_is_object [OF ty] by blast
  obtain e where e: "toStr (js_or (js_get_opt msg ''error'') (JStr ''unknown'')) = Inr e"
    using printableE [OF printable_or [OF er]] by blast
  show ?thesis using ty e unfolding m
    by (auto simp add: dispatch_def andThen_def Let_def simp del: js_get.simps js_get_opt.simps)
qed

text \<open>
  C7, as amended. Dispatching a \<open>status\<close> envelope whose environment and phase can be
  printed returns with the indicator at ok exactly when the \<open>connected\<close> field is truthy,
  the handler's test being \<open>!!msg.connected\<close>: ok for \<open>true\<close> and for every value other than
  \<open>false\<close>, \<open>null\<close>, \<open>0\<close> and the empty string, fail for those and for a field that is
  absent. Dispatching an \<open>error\<close> envelope whose error text can be printed returns with the
  indicator at fail.
\<close>

theorem status_and_error_set_indicator:
  "(js_get msg ''type'' = Inr (JStr ''status'') \<longrightarrow>
      printable (js_get_opt msg ''phase'') \<longrightarrow> printable (js_get_opt msg ''env'') \<longrightarrow>
      (\<exists>w1. dispatch stringify env msg w = Inr w1
         \<and> connDot w1 = (if truthy (js_get_opt msg ''connected'') then Ok else Fail)
         \<and> (js_get_opt msg ''connected'' = JBool True \<longrightarrow> connDot w1 = Ok)
         \<and> (js_get_opt msg ''connected'' = JBool False \<longrightarrow> connDot w1 = Fail)
         \<and> (js_get_opt msg ''connected'' = JUndefined \<longrightarrow> connDot w1 = Fail)))
   \<and> (js_get msg ''type'' = Inr (JStr ''error'') \<longrightarrow> printable (js_get_opt msg ''error'') \<longrightarrow>
      (\<exists>w1. dispatch stringify env msg w = Inr w1 \<and> connDot w1 = Fail))"
proof -
  have s: "\<exists>w1. dispatch stringify env msg w = Inr w1
         \<and> connDot w1 = (if truthy (js_get_opt msg ''connected'') then Ok else Fail)
         \<and> (js_get_opt msg ''connected'' = JBool True \<longrightarrow> connDot w1 = Ok)
         \<and> (js_get_opt msg ''connected'' = JBool False \<longrightarrow> connDot w1 = Fail)
         \<and> (js_get_opt msg ''connected'' = JUndefined \<longrightarrow> connDot w1 = Fail)"
    if a: "js_get msg ''type'' = Inr (JStr ''status'')" "printable (js_get_opt msg ''phase'')"
      "printable (js_get_opt msg ''env'')"
  proof -
    obtain line where "dispatch stringify env msg w
      = Inr (setConnDot (if truthy (js_get_opt msg ''connected'') then Ok else Fail) (appendWsLog line w))"
      using dispatch_status [OF a] by blast
    then show ?thesis by (simp add: setConnDot_def)
  qed
  have e: "\<exists>w1. dispatch stringify env msg w = Inr w1 \<and> connDot w1 = Fail"
    if a: "js_get msg ''type'' = Inr (JStr ''error'')" "printable (js_get_opt msg ''error'')"
  proof -
    obtain line where "dispatch stringify env msg w = Inr (setConnDot Fail (appendWsLog line w))"
      using dispatch_error [OF a] by blast
    then show ?thesis by (simp add: setConnDot_def)
  qed
  show ?thesis using s e by blast
qed

theorem status_and_error_set_indicator_witness:
  "js_get status_msg ''type'' = Inr (JStr ''status'')
   \<and> printable (js_get_opt status_msg ''phase'') \<and> printable (js_get_opt status_msg ''env'')
   \<and> js_get_opt status_msg ''connected'' = JBool True
   \<and> (\<exists>w1. dispatch no_stringify ''testnet'' status_msg open_page = Inr w1 \<and> connDot w1 = Ok)
   \<and> js_get error_msg ''type'' = Inr (JStr ''error'') \<and> printable (js_get_opt error_msg ''error'')
   \<and> (\<exists>w1. dispatch no_stringify ''testnet'' error_msg open_page = Inr w1 \<and> connDot w1 = Fail)"
proof -
  have a: "js_get status_msg ''type'' = Inr (JStr ''status'')" by code_simp
  have b: "printable (js_get_opt status_msg ''phase'')" by code_simp
  have c: "printable (js_get_opt status_msg ''env'')" by code_simp
  have d: "js_get_opt status_msg ''connected'' = JBool True" by code_simp
  have e: "js_get error_msg ''type'' = Inr (JStr ''error'')" by code_simp
  have f: "printable (js_get_opt error_msg ''error'')" by code_simp
  note s = status_and_error_set_indicator [of status_msg no_stringify "''testnet''" open_page]
  note t = status_and_error_set_indicator [of error_msg no_stringify "''testnet''" open_page]
  show ?thesis using s t a b c d e f by auto
qed

text \<open>
  C7 as stated fails. A \<open>status\<close> envelope whose \<open>connected\<close> is the string \<open>no\<close>, which is
  not \<open>true\<close>, sets the indicator to ok. And an \<open>error\<close> envelope whose error is an object
  with a property \<open>toString\<close> does not set the indicator at all: building the log line
  throws before \<open>setConnDot\<close> is reached, and the indicator stays at pending.
\<close>

theorem status_and_error_counterexample:
  "js_get status_no_msg ''type'' = Inr (JStr ''status'')
   \<and> js_get_opt status_no_msg ''connected'' = JStr ''no''
   \<and> map_sum id connDot (dispatch no_stringify ''testnet'' status_no_msg open_page) = Inr Ok
   \<and> js_get bad_error_msg ''type'' = Inr (JStr ''error'')
   \<and> dispatch no_stringify ''testnet'' bad_error_msg open_page = Inl TypeError
   \<and> connDot open_page = Pending
   \<and> connDot (settle open_page (dispatch no_stringify ''testnet'' bad_error_msg open_page)) = Pending"
proof -
  have a: "js_get status_no_msg ''type'' = Inr (JStr ''status'')" by code_simp
  have b: "js_get_opt status_no_msg ''connected'' = JStr ''no''" by code_simp
  have c: "map_sum id connDot (dispatch no_stringify ''testnet'' status_no_msg open_page) = Inr Ok"
    by code_simp
  have d: "js_get bad_error_msg ''type'' = Inr (JStr ''error'')" by code_simp
  have e: "dispatch no_stringify ''testnet'' bad_error_msg open_page = Inl TypeError" by code_simp
  have f: "connDot open_page = Pending" by code_simp
  have g: "connDot (settle open_page (dispatch no_stringify ''testnet'' bad_error_msg open_page)) = Pending"
    by code_simp
  show ?thesis using a b c d e f g by blast
qed

subsection \<open>The start request\<close>

lemma ensure_fst:
  "fst (ensureBinanceUserStreamStarted env r w)
     = (case r of
          Body data \<Rightarrow> (case js_get data ''ok'' of Inl e \<Rightarrow> False | Inr ok \<Rightarrow> truthy ok)
        | _ \<Rightarrow> False)"
  by (auto simp add: ensureBinanceUserStreamStarted_def ensure_try_def andThen_def
        split: response.splits sum.splits)

lemma ensure_snd:
  "\<exists>line. snd (ensureBinanceUserStreamStarted env r w) = appendWsLog line w
     \<and> (if fst (ensureBinanceUserStreamStarted env r w)
         then line = ''User stream started ('' @ env @ '')''
         else (\<exists>t. line = ''User stream start error: '' @ t)
              \<or> line = ''User stream start failed: fetch_failed'')"
  by (auto simp add: ensureBinanceUserStreamStarted_def ensure_try_def andThen_def
        split: response.splits sum.splits)

lemma ensure_no_body:
  "r = NetworkError \<or> r = NotJson \<Longrightarrow>
   ensureBinanceUserStreamStarted env r w
     = (False, appendWsLog ''User stream start failed: fetch_failed'' w)"
  by (auto simp add: ensureBinanceUserStreamStarted_def)

lemma ensure_bool:
  "map_of kvs ''ok'' = Some (JBool b) \<Longrightarrow>
   fst (ensureBinanceUserStreamStarted env (Body (JObj kvs)) w) = b"
  by (simp add: ensure_fst)

lemma ensure_nack:
  assumes "map_of kvs ''ok'' = Some (JBool False)" "printable (js_get_opt (JObj kvs) ''error'')"
  shows "\<exists>t. ensureBinanceUserStreamStarted env (Body (JObj kvs)) w
      = (False, appendWsLog (''User stream start error: '' @ t) w)"
proof -
  obtain e where e: "toStr (js_or (js_get_opt (JObj kvs) ''error'') (JStr ''unknown'')) = Inr e"
    using printableE [OF printable_or [OF assms(2)]] by blast
  have ok: "js_get_opt (JObj kvs) ''ok'' = JBool False" using assms(1) by simp
  show ?thesis using ok e
    by (auto simp add: ensureBinanceUserStreamStarted_def ensure_try_def andThen_def
          simp del: js_get.simps js_get_opt.simps)
qed

text \<open>
  C8. \<open>ensureBinanceUserStreamStarted\<close> always returns a boolean (everything that can throw is
  inside its \<open>try\<close>). It returns true exactly when there is a parsed body whose \<open>ok\<close> passes
  the test \<open>if (data.ok)\<close>, which for a boolean \<open>ok\<close> is the boolean itself, and false in
  every other case. It writes exactly one log line: the success line when it returns true,
  and otherwise one of the two failure lines. A request that fails or a body that is not
  JSON gives false with the line \<open>fetch_failed\<close>, and a body with \<open>ok\<close> false and a printable
  error gives false with the error line.
\<close>

theorem ensure_started_result:
  "fst (ensureBinanceUserStreamStarted env r w)
     = (case r of
          Body data \<Rightarrow> (case js_get data ''ok'' of Inl e \<Rightarrow> False | Inr ok \<Rightarrow> truthy ok)
        | _ \<Rightarrow> False)
   \<and> (\<forall>kvs b. r = Body (JObj kvs) \<longrightarrow> map_of kvs ''ok'' = Some (JBool b) \<longrightarrow>
        fst (ensureBinanceUserStreamStarted env r w) = b)
   \<and> (\<exists>line. snd (ensureBinanceUserStreamStarted env r w) = appendWsLog line w
        \<and> (if fst (ensureBinanceUserStreamStarted env r w)
            then line = ''User stream started ('' @ env @ '')''
            else (\<exists>t. line = ''User stream start error: '' @ t)
                 \<or> line = ''User stream start failed: fetch_failed''))
   \<and> (r = NetworkError \<or> r = NotJson \<longrightarrow>
        ensureBinanceUserStreamStarted env r w
          = (False, appendWsLog ''User stream start failed: fetch_failed'' w))
   \<and> (\<forall>kvs. r = Body (JObj kvs) \<longrightarrow> map_of kvs ''ok'' = Some (JBool False) \<longrightarrow>
        printable (js_get_opt (JObj kvs) ''error'') \<longrightarrow>
        (\<exists>t. ensureBinanceUserStreamStarted env r w
           = (False, appendWsLog (''User stream start error: '' @ t) w)))"
  using ensure_fst [of env r w] ensure_snd [of env r w] ensure_no_body [of r env w]
    ensure_bool [of _ _ env w] ensure_nack [of _ env w]
  by blast

theorem ensure_started_result_witness:
  "fst (ensureBinanceUserStreamStarted ''testnet'' ack (init ''http:'' ''localhost''))
   \<and> \<not> fst (ensureBinanceUserStreamStarted ''testnet'' nack (init ''http:'' ''localhost''))
   \<and> ensureBinanceUserStreamStarted ''testnet'' NetworkError (init ''http:'' ''localhost'')
       = (False, appendWsLog ''User stream start failed: fetch_failed'' (init ''http:'' ''localhost''))
   \<and> (\<exists>t. ensureBinanceUserStreamStarted ''testnet'' nack (init ''http:'' ''localhost'')
       = (False, appendWsLog (''User stream start error: '' @ t) (init ''http:'' ''localhost'')))"
proof -
  note a = ensure_started_result [of "''testnet''" ack "init ''http:'' ''localhost''"]
  note n = ensure_started_result [of "''testnet''" nack "init ''http:'' ''localhost''"]
  note e = ensure_started_result [of "''testnet''" NetworkError "init ''http:'' ''localhost''"]
  have p: "printable (js_get_opt (JObj [(''ok'', JBool False), (''error'', JStr ''unauthorized'')]) ''error'')"
    by code_simp
  have 1: "fst (ensureBinanceUserStreamStarted ''testnet'' ack (init ''http:'' ''localhost''))"
    using a by (simp add: ack_def)
  have 2: "\<not> fst (ensureBinanceUserStreamStarted ''testnet'' nack (init ''http:'' ''localhost''))"
    using n by (simp add: nack_def)
  have 3: "ensureBinanceUserStreamStarted ''testnet'' NetworkError (init ''http:'' ''localhost'')
       = (False, appendWsLog ''User stream start failed: fetch_failed'' (init ''http:'' ''localhost''))"
    using e by simp
  have 4: "\<exists>t. ensureBinanceUserStreamStarted ''testnet'' nack (init ''http:'' ''localhost'')
       = (False, appendWsLog (''User stream start error: '' @ t) (init ''http:'' ''localhost''))"
    using n p unfolding nack_def by (elim conjE allE [of _ "[(''ok'', JBool False), (''error'', JStr ''unauthorized'')]"]) simp
  show ?thesis using 1 2 3 4 by blast
qed

subsection \<open>The error event\<close>

lemma onerror_effect:
  "wsLog (ws_onerror w) = ''WS error (socket)'' # wsLog w
   \<and> connDot (ws_onerror w) = Fail
   \<and> timeouts (ws_onerror w) = timeouts w
   \<and> nextTimerId (ws_onerror w) = nextTimerId w
   \<and> reconnectDelayMs (ws_onerror w) = reconnectDelayMs w
   \<and> streamStartedOnce (ws_onerror w) = streamStartedOnce w
   \<and> userStreamWS (ws_onerror w) = userStreamWS w
   \<and> userStreamReconnectTimer (ws_onerror w) = userStreamReconnectTimer w
   \<and> keepaliveTimer (ws_onerror w) = keepaliveTimer w
   \<and> sockets (ws_onerror w) = sockets w
   \<and> intervals (ws_onerror w) = intervals w
   \<and> pendingStarts (ws_onerror w) = pendingStarts w
   \<and> starterCalls (ws_onerror w) = starterCalls w"
  by (simp add: ws_onerror_def setConnDot_def appendWsLog_def)

lemma onclose_timeouts:
  "timeouts (ws_onclose env code reason w) = timeouts w @ [(nextTimerId w, reconnectDelayMs w, Reconnect env)]
   \<and> userStreamReconnectTimer (ws_onclose env code reason w) = Some (nextTimerId w)"
  by (simp add: ws_onclose_def setTimeout_def setConnDot_def appendWsLog_def Let_def)

text \<open>
  C9. An error event of a socket adds the line \<open>WS error (socket)\<close> to the log and sets the
  indicator to fail (and does nothing at all when the socket is already closed). It adds no
  timeout and leaves the reconnect delay, the started flag, the three handles, the sockets,
  the intervals and the starter count as they were. An error event followed by the close
  event of the same socket adds exactly one timeout: the reconnect for that socket's
  environment, at the delay in force.
\<close>

theorem error_event_only_reports:
  "wsLog (step parse stringify (WsError i) w)
     = (if i < length (sockets w) \<and> readyState (sockets w ! i) \<noteq> CLOSED
        then ''WS error (socket)'' # wsLog w else wsLog w)
   \<and> connDot (step parse stringify (WsError i) w)
     = (if i < length (sockets w) \<and> readyState (sockets w ! i) \<noteq> CLOSED then Fail else connDot w)
   \<and> timeouts (step parse stringify (WsError i) w) = timeouts w
   \<and> reconnectDelayMs (step parse stringify (WsError i) w) = reconnectDelayMs w
   \<and> streamStartedOnce (step parse stringify (WsError i) w) = streamStartedOnce w
   \<and> userStreamWS (step parse stringify (WsError i) w) = userStreamWS w
   \<and> userStreamReconnectTimer (step parse stringify (WsError i) w) = userStreamReconnectTimer w
   \<and> keepaliveTimer (step parse stringify (WsError i) w) = keepaliveTimer w
   \<and> sockets (step parse stringify (WsError i) w) = sockets w
   \<and> intervals (step parse stringify (WsError i) w) = intervals w
   \<and> starterCalls (step parse stringify (WsError i) w) = starterCalls w
   \<and> (i < length (sockets w) \<longrightarrow> readyState (sockets w ! i) \<noteq> CLOSED \<longrightarrow>
        timeouts (run parse stringify [WsError i, WsClose i code reason] w)
          = timeouts w @ [(nextTimerId w, reconnectDelayMs w, Reconnect (sock_env (sockets w ! i)))])"
proof -
  have s: "step parse stringify (WsError i) w
      = (if i < length (sockets w) \<and> readyState (sockets w ! i) \<noteq> CLOSED then ws_onerror w else w)"
    by (simp add: step_def)
  have c: "timeouts (run parse stringify [WsError i, WsClose i code reason] w)
          = timeouts w @ [(nextTimerId w, reconnectDelayMs w, Reconnect (sock_env (sockets w ! i)))]"
    if a: "i < length (sockets w)" "readyState (sockets w ! i) \<noteq> CLOSED"
  proof -
    have "run parse stringify [WsError i, WsClose i code reason] w
        = ws_onclose (sock_env (sockets w ! i)) code reason (set_ready i CLOSED (ws_onerror w))"
      using a by (simp add: s step_def onerror_effect)
    then show ?thesis
      by (simp add: onclose_timeouts set_ready_def onerror_effect)
  qed
  show ?thesis using c by (simp add: s onerror_effect)
qed

theorem error_event_only_reports_witness:
  "0 < length (sockets started_page) \<and> readyState (sockets started_page ! 0) \<noteq> CLOSED
   \<and> timeouts started_page = []
   \<and> timeouts (step no_parse no_stringify (WsError 0) started_page) = []
   \<and> connDot (step no_parse no_stringify (WsError 0) started_page) = Fail
   \<and> timeouts (run no_parse no_stringify [WsError 0, WsClose 0 1006 []] started_page)
        = [(2, 1500, Reconnect ''testnet'')]"
proof -
  have a: "0 < length (sockets started_page)" by code_simp
  have b: "readyState (sockets started_page ! 0) \<noteq> CLOSED" by code_simp
  have c: "timeouts started_page = []" by code_simp
  have d: "nextTimerId started_page = 2" by code_simp
  have e: "reconnectDelayMs started_page = 1500" by code_simp
  have f: "sock_env (sockets started_page ! 0) = ''testnet''" by code_simp
  note t = error_event_only_reports [of no_parse no_stringify 0 started_page 1006 "[]"]
  show ?thesis using t a b c d e f by simp
qed

subsection \<open>Messages: every input\<close>

lemma dispatch_hello:
  assumes nn: "msg \<noteq> JNull" "msg \<noteq> JUndefined"
    and ty: "js_get_opt msg ''type'' = JStr ''hello''"
    and pr: "printable (js_get_opt msg ''msg'')"
  shows "\<exists>line. dispatch stringify env msg w = Inr (appendWsLog line w)"
proof -
  obtain t where t: "toStr (js_or (js_get_opt msg ''msg'') (JStr ''ok'')) = Inr t"
    using printableE [OF printable_or [OF pr]] by blast
  show ?thesis using ty t
    by (auto simp add: dispatch_def andThen_def js_get_total [OF nn])
qed

lemma dispatch_unknown:
  assumes nn: "msg \<noteq> JNull" "msg \<noteq> JUndefined"
    and ty: "js_get_opt msg ''type'' \<noteq> JStr ''hello''" "js_get_opt msg ''type'' \<noteq> JStr ''status''"
      "js_get_opt msg ''type'' \<noteq> JStr ''error''" "js_get_opt msg ''type'' \<noteq> JStr ''binance_event''"
  shows "dispatch stringify env msg w = Inr (appendWsLog (''WS message: '' @ take 220 (stringify msg)) w)"
  using ty by (simp add: dispatch_def andThen_def js_get_total [OF nn])

lemma eventType_no_data:
  assumes "msg \<noteq> JNull" "msg \<noteq> JUndefined" "js_get_opt msg ''data'' = JUndefined"
  shows "eventType_of msg = Inr (JStr ''unknown_event'')"
  using assms by (simp add: eventType_of_def andThen_def js_get_total js_or_def)

lemma dispatch_bare_event:
  assumes nn: "msg \<noteq> JNull" "msg \<noteq> JUndefined"
    and ty: "js_get_opt msg ''type'' = JStr ''binance_event''"
    and nd: "js_get_opt msg ''data'' = JUndefined"
  shows "dispatch stringify env msg w = Inr (setConnDot Ok (appendWsLog ''Event: unknown_event'' w))"
proof -
  have t: "js_get msg ''type'' = Inr (JStr ''binance_event'')"
    using ty by (simp add: js_get_total [OF nn])
  show ?thesis
    unfolding dispatch_binance [OF t] eventType_no_data [OF nn nd]
    by (simp add: andThen_def)
qed

lemma dispatch_event_loggable:
  assumes nn: "msg \<noteq> JNull" "msg \<noteq> JUndefined"
    and ty: "js_get_opt msg ''type'' = JStr ''binance_event''"
    and ev: "eventType_of msg = Inr v" and pr: "printable v"
  shows "\<exists>w1. dispatch stringify env msg w = Inr w1"
proof -
  have t: "js_get msg ''type'' = Inr (JStr ''binance_event'')"
    using ty by (simp add: js_get_total [OF nn])
  obtain s where s: "toStr v = Inr s" using printableE [OF pr] by blast
  show ?thesis
    unfolding dispatch_binance [OF t] ev by (simp add: andThen_def s Let_def)
qed

lemma dispatch_total:
  assumes nn: "msg \<noteq> JNull" "msg \<noteq> JUndefined" and lg: "loggable msg"
  shows "\<exists>w1. dispatch stringify env msg w = Inr w1"
proof -
  let ?ty = "js_get_opt msg ''type''"
  have g: "js_get msg ''type'' = Inr ?ty" by (rule js_get_total [OF nn])
  consider (hello) "?ty = JStr ''hello''" | (status) "?ty = JStr ''status''"
    | (error) "?ty = JStr ''error''" | (event) "?ty = JStr ''binance_event''"
    | (other) "?ty \<noteq> JStr ''hello''" "?ty \<noteq> JStr ''status''" "?ty \<noteq> JStr ''error''"
        "?ty \<noteq> JStr ''binance_event''"
    by blast
  then show ?thesis
  proof cases
    case hello
    then have "printable (js_get_opt msg ''msg'')" using lg by (simp add: loggable_def)
    then show ?thesis using dispatch_hello [OF nn hello] by blast
  next
    case status
    then have "printable (js_get_opt msg ''phase'')" "printable (js_get_opt msg ''env'')"
      using lg by (simp_all add: loggable_def)
    then show ?thesis using dispatch_status [of msg] g status by fastforce
  next
    case error
    then have "printable (js_get_opt msg ''error'')" using lg by (simp add: loggable_def)
    then show ?thesis using dispatch_error [of msg] g error by fastforce
  next
    case event
    then obtain v where "eventType_of msg = Inr v" "printable v"
      using lg by (cases "eventType_of msg") (simp_all add: loggable_def)
    then show ?thesis using dispatch_event_loggable [OF nn event] by blast
  next
    case other
    then show ?thesis using dispatch_unknown [OF nn other] by simp
  qed
qed


text \<open>
  C10, as amended. Data that is not JSON is logged (its first 200 characters) and dropped.
  A parsed message other than \<open>null\<close> whose branch can print what it logs is handled without
  an exception. A \<open>status\<close> envelope sets the indicator by the truthiness of its \<open>connected\<close>
  field: fail when the field is missing, \<open>null\<close>, \<open>false\<close>, \<open>0\<close> or the empty string, ok for
  \<open>true\<close> and for every other value. A \<open>binance_event\<close> without data logs the inner type as
  \<open>unknown_event\<close>, sets the indicator to ok and schedules nothing. A message with any other
  type tag is logged as its JSON text, cut to 220 characters, and changes nothing else.
\<close>

theorem message_handler_amended:
  "(parse d = None \<longrightarrow>
      ws_onmessage parse stringify env d w = Inr (appendWsLog (''WS non-json: '' @ take 200 d) w))
   \<and> (parse d = Some msg \<longrightarrow> msg \<noteq> JNull \<longrightarrow> msg \<noteq> JUndefined \<longrightarrow>
        (loggable msg \<longrightarrow> (\<exists>w1. ws_onmessage parse stringify env d w = Inr w1))
        \<and> (js_get_opt msg ''type'' = JStr ''status'' \<longrightarrow>
             printable (js_get_opt msg ''phase'') \<longrightarrow> printable (js_get_opt msg ''env'') \<longrightarrow>
             (\<exists>w1. ws_onmessage parse stringify env d w = Inr w1
                \<and> connDot w1 = (if truthy (js_get_opt msg ''connected'') then Ok else Fail)))
        \<and> (js_get_opt msg ''type'' = JStr ''binance_event'' \<longrightarrow>
             js_get_opt msg ''data'' = JUndefined \<longrightarrow>
             (\<exists>w1. ws_onmessage parse stringify env d w = Inr w1
                \<and> wsLog w1 = ''Event: unknown_event'' # wsLog w \<and> connDot w1 = Ok
                \<and> timeouts w1 = timeouts w))
        \<and> (js_get_opt msg ''type'' \<noteq> JStr ''hello'' \<longrightarrow> js_get_opt msg ''type'' \<noteq> JStr ''status'' \<longrightarrow>
             js_get_opt msg ''type'' \<noteq> JStr ''error'' \<longrightarrow>
             js_get_opt msg ''type'' \<noteq> JStr ''binance_event'' \<longrightarrow>
             ws_onmessage parse stringify env d w
               = Inr (appendWsLog (''WS message: '' @ take 220 (stringify msg)) w)))"
proof -
  have n: "ws_onmessage parse stringify env d w = Inr (appendWsLog (''WS non-json: '' @ take 200 d) w)"
    if "parse d = None"
    using that by (simp add: ws_onmessage_def)
  have m: "ws_onmessage parse stringify env d w = dispatch stringify env msg w" if "parse d = Some msg"
    using that by (simp add: ws_onmessage_def)
  have t: "\<exists>w1. dispatch stringify env msg w = Inr w1"
    if "msg \<noteq> JNull" "msg \<noteq> JUndefined" "loggable msg"
    using dispatch_total [OF that] .
  have s: "\<exists>w1. dispatch stringify env msg w = Inr w1
                \<and> connDot w1 = (if truthy (js_get_opt msg ''connected'') then Ok else Fail)"
    if a: "msg \<noteq> JNull" "msg \<noteq> JUndefined" and b: "js_get_opt msg ''type'' = JStr ''status''"
      and c: "printable (js_get_opt msg ''phase'')" "printable (js_get_opt msg ''env'')"
  proof -
    have g: "js_get msg ''type'' = Inr (JStr ''status'')" using b by (simp add: js_get_total [OF a])
    obtain line where "dispatch stringify env msg w
      = Inr (setConnDot (if truthy (js_get_opt msg ''connected'') then Ok else Fail) (appendWsLog line w))"
      using dispatch_status [OF g c] by blast
    then show ?thesis by (simp add: setConnDot_def)
  qed
  have e: "\<exists>w1. dispatch stringify env msg w = Inr w1
                \<and> wsLog w1 = ''Event: unknown_event'' # wsLog w \<and> connDot w1 = Ok
                \<and> timeouts w1 = timeouts w"
    if a: "msg \<noteq> JNull" "msg \<noteq> JUndefined" and b: "js_get_opt msg ''type'' = JStr ''binance_event''"
      and c: "js_get_opt msg ''data'' = JUndefined"
    using dispatch_bare_event [OF a b c] by (simp add: setConnDot_def appendWsLog_def)
  have u: "dispatch stringify env msg w = Inr (appendWsLog (''WS message: '' @ take 220 (stringify msg)) w)"
    if a: "msg \<noteq> JNull" "msg \<noteq> JUndefined"
      and b: "js_get_opt msg ''type'' \<noteq> JStr ''hello''" "js_get_opt msg ''type'' \<noteq> JStr ''status''"
        "js_get_opt msg ''type'' \<noteq> JStr ''error''" "js_get_opt msg ''type'' \<noteq> JStr ''binance_event''"
    using dispatch_unknown [OF a b] .
  show ?thesis using n m t s e u by simp
qed

text \<open>
  C10 as stated fails twice. The text \<open>null\<close> parses, and reading \<open>msg.type\<close> from it throws
  outside the handler's \<open>try\<close>. And a \<open>status\<close> envelope whose \<open>connected\<close> is the number 1, not
  a boolean, is treated as connected: the indicator becomes ok.
\<close>

theorem message_handler_counterexample:
  "sample_parse ''null'' = Some JNull
   \<and> ws_onmessage sample_parse no_stringify ''testnet'' ''null'' open_page = Inl TypeError
   \<and> sample_parse status_one_text = Some status_one_msg
   \<and> js_get_opt status_one_msg ''connected'' = JNum ''1''
   \<and> map_sum id connDot (ws_onmessage sample_parse no_stringify ''testnet'' status_one_text open_page)
       = Inr Ok"
proof -
  have a: "sample_parse ''null'' = Some JNull" by code_simp
  have b: "ws_onmessage sample_parse no_stringify ''testnet'' ''null'' open_page = Inl TypeError"
    by code_simp
  have c: "sample_parse status_one_text = Some status_one_msg" by code_simp
  have d: "js_get_opt status_one_msg ''connected'' = JNum ''1''" by code_simp
  have e: "map_sum id connDot (ws_onmessage sample_parse no_stringify ''testnet'' status_one_text open_page)
       = Inr Ok"
    by code_simp
  show ?thesis using a b c d e by blast
qed

theorem message_handler_amended_witness:
  "sample_parse ''oops'' = None
   \<and> ws_onmessage sample_parse no_stringify ''testnet'' ''oops'' open_page
       = Inr (appendWsLog ''WS non-json: oops'' open_page)
   \<and> sample_parse status_one_text = Some status_one_msg \<and> loggable status_one_msg
   \<and> (\<exists>w1. ws_onmessage sample_parse no_stringify ''testnet'' status_one_text open_page = Inr w1
         \<and> connDot w1 = Ok)
   \<and> always bare_event_msg ''e'' = Some bare_event_msg
   \<and> (\<exists>w1. ws_onmessage (always bare_event_msg) no_stringify ''testnet'' ''e'' open_page = Inr w1
         \<and> wsLog w1 = ''Event: unknown_event'' # wsLog open_page \<and> connDot w1 = Ok
         \<and> timeouts w1 = timeouts open_page)
   \<and> ws_onmessage (always ping_msg) no_stringify ''testnet'' ''p'' open_page
       = Inr (appendWsLog ''WS message: '' open_page)"
proof -
  have a: "sample_parse ''oops'' = None" by code_simp
  have b: "sample_parse status_one_text = Some status_one_msg" by code_simp
  have c: "loggable status_one_msg" by code_simp
  have d: "js_get_opt status_one_msg ''type'' = JStr ''status''"
    "printable (js_get_opt status_one_msg ''phase'')" "printable (js_get_opt status_one_msg ''env'')"
    "truthy (js_get_opt status_one_msg ''connected'')"
    by code_simp+
  have e: "js_get_opt bare_event_msg ''type'' = JStr ''binance_event''"
    "js_get_opt bare_event_msg ''data'' = JUndefined"
    by code_simp+
  have f: "js_get_opt ping_msg ''type'' \<noteq> JStr ''hello''" "js_get_opt ping_msg ''type'' \<noteq> JStr ''status''"
    "js_get_opt ping_msg ''type'' \<noteq> JStr ''error''" "js_get_opt ping_msg ''type'' \<noteq> JStr ''binance_event''"
    by code_simp+
  have g: "status_one_msg \<noteq> JNull" "status_one_msg \<noteq> JUndefined" "bare_event_msg \<noteq> JNull"
    "bare_event_msg \<noteq> JUndefined" "ping_msg \<noteq> JNull" "ping_msg \<noteq> JUndefined"
    by (simp_all add: status_one_msg_def bare_event_msg_def ping_msg_def)
  note t1 = message_handler_amended [of sample_parse "''oops''" no_stringify "''testnet''" open_page]
  note t2 = message_handler_amended [of sample_parse status_one_text no_stringify "''testnet''" open_page
      status_one_msg]
  note t3 = message_handler_amended [of "always bare_event_msg" "''e''" no_stringify "''testnet''" open_page
      bare_event_msg]
  note t4 = message_handler_amended [of "always ping_msg" "''p''" no_stringify "''testnet''" open_page
      ping_msg]
  have 1: "ws_onmessage sample_parse no_stringify ''testnet'' ''oops'' open_page
       = Inr (appendWsLog ''WS non-json: oops'' open_page)"
    using t1 a by simp
  have 2: "\<exists>w1. ws_onmessage sample_parse no_stringify ''testnet'' status_one_text open_page = Inr w1
         \<and> connDot w1 = Ok"
    using t2 b d g by simp
  have 3: "\<exists>w1. ws_onmessage (always bare_event_msg) no_stringify ''testnet'' ''e'' open_page = Inr w1
         \<and> wsLog w1 = ''Event: unknown_event'' # wsLog open_page \<and> connDot w1 = Ok
         \<and> timeouts w1 = timeouts open_page"
    using t3 e g by (simp add: always_def)
  have 4: "ws_onmessage (always ping_msg) no_stringify ''testnet'' ''p'' open_page
       = Inr (appendWsLog ''WS message: '' open_page)"
    using t4 f g by (simp add: always_def no_stringify_def)
  show ?thesis using 1 2 3 4 a b c by (simp add: always_def)
qed

end
